theory Spec2Isabelle
  imports Main "HOL-Library.AList"
begin

section \<open>Python strings\<close>

text \<open>
  A Python \<open>str\<close> is modelled as a \<open>string\<close>: a list of characters, each a code point
  below 256. The operations below are the \<open>str\<close> methods the analysed modules call,
  at the argument shapes they are called with (single-character separators).
\<close>

definition replace_char :: "char \<Rightarrow> char \<Rightarrow> string \<Rightarrow> string" where
  \<comment> \<open>\<open>s.replace(a, b)\<close> for one-character \<open>a\<close> and \<open>b\<close>\<close>
  "replace_char a b s = map (\<lambda>c. if c = a then b else c) s"

definition endswith :: "string \<Rightarrow> string \<Rightarrow> bool" where
  "endswith s suf = (length suf \<le> length s \<and> drop (length s - length suf) s = suf)"

definition startswith :: "string \<Rightarrow> string \<Rightarrow> bool" where
  "startswith s pre = (take (length pre) s = pre)"

fun contains :: "string \<Rightarrow> string \<Rightarrow> bool" where
  \<comment> \<open>\<open>sub in s\<close>: \<open>sub\<close> occurs in \<open>s\<close> as a contiguous substring\<close>
  "contains sub [] = (sub = [])"
| "contains sub (c # cs) = (startswith (c # cs) sub \<or> contains sub cs)"

fun split_on :: "char \<Rightarrow> string \<Rightarrow> string list" where
  \<comment> \<open>\<open>s.split(c)\<close>: never empty, \<open>''''.split(c) = ['''']\<close>\<close>
  "split_on c [] = [[]]"
| "split_on c (x # xs) =
     (if x = c then [] # split_on c xs
      else (case split_on c xs of [] \<Rightarrow> [[x]] | w # ws \<Rightarrow> (x # w) # ws))"

definition after_last :: "char \<Rightarrow> string \<Rightarrow> string" where
  \<comment> \<open>\<open>s.rsplit(c, 1)[-1]\<close>: the text after the last \<open>c\<close>, all of \<open>s\<close> when there is none\<close>
  "after_last c s = rev (takeWhile (\<lambda>x. x \<noteq> c) (rev s))"

fun join :: "string \<Rightarrow> string list \<Rightarrow> string" where
  \<comment> \<open>\<open>sep.join(xs)\<close>\<close>
  "join sep [] = []"
| "join sep [x] = x"
| "join sep (x # y # ys) = x @ sep @ join sep (y # ys)"

definition lower_char :: "char \<Rightarrow> char" where
  \<comment> \<open>\<open>str.lower\<close> on one code point below 256: A-Z, and the Latin-1 capitals
      0xC0-0xDE without the multiplication sign 0xD7, move up by 32\<close>
  "lower_char c =
     (let n = (of_char c :: nat)
      in if (65 \<le> n \<and> n \<le> 90) \<or> (192 \<le> n \<and> n \<le> 222 \<and> n \<noteq> 215)
         then char_of (n + 32) else c)"

definition lower :: "string \<Rightarrow> string" where
  "lower s = map lower_char s"

definition upper_char :: "char \<Rightarrow> string" where
  \<comment> \<open>\<open>str.upper\<close> on one code point below 256: a-z, and the Latin-1 small letters
      0xE0-0xFE without the division sign 0xF7, move down by 32; the sharp s 0xDF becomes
      \<open>SS\<close>. The capitals of the micro sign 0xB5 and of 0xFF lie beyond code point 255,
      where the strings of this development end: the two are kept as they are\<close>
  "upper_char c =
     (let n = (of_char c :: nat)
      in if (97 \<le> n \<and> n \<le> 122) \<or> (224 \<le> n \<and> n \<le> 254 \<and> n \<noteq> 247)
         then [char_of (n - 32)]
         else if n = 223 then ''SS'' else [c])"

definition upper :: "string \<Rightarrow> string" where
  "upper s = concat (map upper_char s)"

fun digit_char :: "nat \<Rightarrow> char" where
  "digit_char n = char_of (48 + n mod 10)"

fun show_nat_aux :: "nat \<Rightarrow> nat \<Rightarrow> string \<Rightarrow> string" where
  \<comment> \<open>decimal digits of \<open>n\<close>, most significant first; the first argument bounds the number of digits\<close>
  "show_nat_aux 0 n acc = acc"
| "show_nat_aux (Suc fuel) n acc =
     (if n < 10 then digit_char n # acc
      else show_nat_aux fuel (n div 10) (digit_char n # acc))"

definition show_nat :: "nat \<Rightarrow> string" where
  \<comment> \<open>\<open>str(n)\<close> for a non-negative integer; \<open>n\<close> has at most \<open>n + 1\<close> digits\<close>
  "show_nat n = show_nat_aux (Suc n) n []"

definition show_int :: "int \<Rightarrow> string" where
  "show_int i = (if i < 0 then CHR ''-'' # show_nat (nat (- i)) else show_nat (nat i))"


section \<open>Data model\<close>

text \<open>
  The analysis records are Python dictionaries. A key that some producers omit is an
  \<open>option\<close> field (\<open>None\<close>: the key is absent, so \<open>d.get(key, default)\<close> yields the
  default); keys every producer sets are plain fields. The keys appear in the order
  in which the parsers insert them.
\<close>

record func_rec =
  fn_name :: "string option"
  fn_decorators :: "string list option"
  fn_is_async :: "bool option"
  fn_line :: "int option"
  fn_description :: "string option"

record class_rec =
  cl_name :: string
  cl_bases :: "string list option"
  cl_decorators :: "string list option"
  cl_line :: "int option"
  cl_extends :: "string option"

record route_rec =
  rt_function :: "string option"
  rt_decorator :: "string option"
  rt_line :: "int option"
  rt_method :: "string option"
  rt_path :: "string option"

record file_analysis =
  fa_file_path :: string
  fa_language :: string
  fa_classes :: "class_rec list"
  fa_functions :: "func_rec list"
  fa_components :: "string list"
  fa_imports :: "string list"
  fa_routes :: "route_rec list"
  fa_react_hooks :: "string list"

text \<open>
  \<open>fa_react_hooks\<close> is the key \<open>react_hooks\<close>, which only the component parser sets;
  every reader uses \<open>get("react_hooks", [])\<close>, so an absent key is the empty list.
\<close>

datatype exn = Exn string

type_synonym adjacency = "(string \<times> string list) list"

text \<open>
  A Python \<open>dict\<close> keeps its keys in insertion order, and assigning to a key that is
  already there keeps the key's place: an association list under \<open>AList.update\<close>.
  \<open>d[k].append(v)\<close> is \<open>AList.map_entry k (\<lambda>l. l @ [v])\<close>; every such call in the
  graph builders follows an assignment \<open>d[k] = []\<close>, so the key is present.
\<close>

datatype dot_stmt = DNode string string | DEdge string string

record dot =
  dot_name :: string
  dot_body :: "dot_stmt list"

text \<open>
  A diagram under construction: its name and the \<open>node(id, label)\<close> and
  \<open>edge(src, dst)\<close> calls made on it, in call order (colours and shapes left out).

  What the builders take from outside the repository is a parameter:
  \<^item> \<open>w_set_order xs\<close>: the order in which Python iterates the \<open>set\<close> filled with
    \<open>xs\<close> (each element once, in an order the language does not fix);
  \<^item> \<open>w_construct d\<close>: the exception, if any, that the diagram library raises while
    the diagram object \<open>d\<close> is put together;
  \<^item> \<open>w_mkdtemp name\<close>: the fresh directory \<open>tempfile.mkdtemp\<close> returns when the
    graph \<open>name\<close> is rendered, or the exception it raises;
  \<^item> \<open>w_render d path\<close>: the exception, if any, raised by \<open>d.render(path)\<close>;
  \<^item> \<open>w_exists path\<close>: \<open>os.path.exists(path)\<close> after rendering.
\<close>

record world =
  w_set_order :: "string list \<Rightarrow> string list"
  w_construct :: "dot \<Rightarrow> exn option"
  w_mkdtemp :: "string \<Rightarrow> exn + string"
  w_render :: "dot \<Rightarrow> string \<Rightarrow> exn option"
  w_exists :: "string \<Rightarrow> bool"


section \<open>Graph builder: utilities\<close>

fun strip_ext :: "string list \<Rightarrow> string \<Rightarrow> string" where
  \<comment> \<open>the loop over extensions with its \<open>break\<close>: only the first matching one is cut\<close>
  "strip_ext [] name = name"
| "strip_ext (ext # exts) name =
     (if endswith name ext then take (length name - length ext) name
      else strip_ext exts name)"

definition path_to_module :: "string \<Rightarrow> string" where
  "path_to_module path =
     strip_ext [''.py'', ''.js'', ''.ts'', ''.tsx'', ''.jsx'', ''.java'', ''.go'', ''.cs'',
                ''.php'', ''.cpp'']
       (replace_char (CHR 0x5C) CHR ''.'' (replace_char CHR ''/'' CHR ''.'' path))"

definition shorten_label :: "string \<Rightarrow> string" where
  "shorten_label name =
     (if length name \<le> 25 then name
      else let parts = split_on CHR ''.'' name
           in if length parts > 2
              then ''...'' @ join ''.'' (drop (length parts - 2) parts)
              else take 22 name @ ''...'')"

definition render_graph :: "world \<Rightarrow> dot \<Rightarrow> string \<Rightarrow> string option" where
  \<comment> \<open>\<open>_render_graph\<close>: every exception inside is caught and gives \<open>None\<close>\<close>
  "render_graph w d name =
     (case w_mkdtemp w name of
        Inl e \<Rightarrow> None
      | Inr tmp_dir \<Rightarrow>
          (let filepath = tmp_dir @ ''/'' @ name
           in case w_render w d filepath of
                Some e \<Rightarrow> None
              | None \<Rightarrow>
                  (let png_path = filepath @ ''.png''
                   in if w_exists w png_path then Some png_path else None)))"

fun dedup_edges :: "(string \<times> string) list \<Rightarrow> (string \<times> string) list \<Rightarrow> (string \<times> string) list" where
  \<comment> \<open>the \<open>seen_edges\<close> filter: an edge is drawn the first time it comes up\<close>
  "dedup_edges seen [] = []"
| "dedup_edges seen (e # es) =
     (if e \<in> set seen then dedup_edges seen es else e # dedup_edges (seen @ [e]) es)"


section \<open>Graph builder: module dependency graph\<close>

definition module_names :: "file_analysis list \<Rightarrow> (string \<times> string) list" where
  "module_names sa =
     foldl (\<lambda>d a. AList.update (path_to_module (fa_file_path a)) (fa_file_path a) d) [] sa"

definition import_base :: "string \<Rightarrow> string" where
  "import_base imp =
     (let imp_base = (if CHR ''.'' \<in> set imp then hd (split_on CHR ''.'' imp) else imp)
      in replace_char (CHR 0x5C) CHR ''.'' (replace_char CHR ''/'' CHR ''.'' imp_base))"

definition module_matches :: "string \<Rightarrow> string \<Rightarrow> bool" where
  "module_matches imp_base mod_name =
     (let mod_base = (if CHR ''.'' \<in> set mod_name then last (split_on CHR ''.'' mod_name)
                      else mod_name)
      in imp_base = mod_base \<or> contains imp_base mod_name)"

fun scan_modules ::
  "string \<Rightarrow> string \<Rightarrow> string list \<Rightarrow> (string \<times> string) list \<times> adjacency
     \<Rightarrow> (string \<times> string) list \<times> adjacency" where
  \<comment> \<open>\<open>for mod_name in module_names\<close>, left by \<open>break\<close> at the first match\<close>
  "scan_modules source_module imp_base [] st = st"
| "scan_modules source_module imp_base (mod_name # rest) (edges, adj) =
     (if module_matches imp_base mod_name
      then (if mod_name \<noteq> source_module
            then (edges @ [(source_module, mod_name)],
                  AList.map_entry source_module (\<lambda>l. l @ [mod_name]) adj)
            else (edges, adj))
      else scan_modules source_module imp_base rest (edges, adj))"

definition module_analysis_step ::
  "string list \<Rightarrow> (string \<times> string) list \<times> adjacency \<Rightarrow> file_analysis
     \<Rightarrow> (string \<times> string) list \<times> adjacency" where
  "module_analysis_step mods st a =
     (let source_module = path_to_module (fa_file_path a)
      in foldl (\<lambda>s imp. scan_modules source_module (import_base imp) mods s)
           (fst st, AList.update source_module [] (snd st)) (fa_imports a))"

definition module_dot :: "world \<Rightarrow> string list \<Rightarrow> (string \<times> string) list \<Rightarrow> dot" where
  "module_dot w nodes edges =
     (let display_nodes = take 40 (w_set_order w nodes)
      in \<lparr>dot_name = ''Module Dependencies'',
          dot_body = map (\<lambda>n. DNode n (shorten_label n)) display_nodes
            @ map (\<lambda>(src, dst). DEdge src dst)
                (dedup_edges []
                   (filter (\<lambda>(src, dst). src \<in> set display_nodes \<and> dst \<in> set display_nodes)
                      edges))\<rparr>)"

definition module_edges :: "file_analysis list \<Rightarrow> (string \<times> string) list \<times> adjacency" where
  \<comment> \<open>the two loops over \<open>source_analysis\<close>: the edge list and the adjacency dictionary\<close>
  "module_edges sa = foldl (module_analysis_step (map fst (module_names sa))) ([], []) sa"

definition build_module_dependency_graph ::
  "world \<Rightarrow> file_analysis list \<Rightarrow> exn + (string option \<times> adjacency)" where
  "build_module_dependency_graph w sa =
     (let nodes = map (\<lambda>a. path_to_module (fa_file_path a)) sa;
          st = module_edges sa
      in if nodes = [] then Inr (None, [])
         else (let d = module_dot w nodes (fst st)
               in case w_construct w d of
                    Some e \<Rightarrow> Inl e
                  | None \<Rightarrow> Inr (render_graph w d ''module_dependencies'', snd st)))"


section \<open>Graph builder: route flow graph\<close>

definition collect_routes :: "file_analysis list \<Rightarrow> (string \<times> route_rec) list" where
  \<comment> \<open>every route with the key \<open>file\<close> put in front of its own keys\<close>
  "collect_routes sa =
     concat (map (\<lambda>a. map (\<lambda>route. (path_to_module (fa_file_path a), route)) (fa_routes a)) sa)"

definition route_label :: "route_rec \<Rightarrow> string" where
  "route_label route =
     (let method = (case rt_method route of None \<Rightarrow> [] | Some m \<Rightarrow> m);
          path = (case rt_path route of
                    Some p \<Rightarrow> p
                  | None \<Rightarrow> (case rt_decorator route of None \<Rightarrow> [] | Some d \<Rightarrow> d))
      in if method \<noteq> [] then method @ '' '' @ path else path)"

definition route_step ::
  "dot_stmt list \<times> adjacency \<Rightarrow> nat \<times> string \<times> route_rec \<Rightarrow> dot_stmt list \<times> adjacency" where
  "route_step st ir =
     (let i = fst ir; file_mod = fst (snd ir); route = snd (snd ir);
          func = (case rt_function route of None \<Rightarrow> [] | Some f \<Rightarrow> f);
          node_id = ''route_'' @ show_nat i;
          label = route_label route;
          handler_id = ''handler_'' @ show_nat i;
          handler = (if func \<noteq> []
                     then [DNode handler_id (func @ ''()'' @ [CHR 0x0A] @ file_mod),
                           DEdge node_id handler_id]
                     else [])
      in (fst st @ [DNode node_id label] @ handler @ [DEdge ''API_Gateway'' node_id],
          AList.map_entry ''API_Gateway'' (\<lambda>l. l @ [label]) (snd st)))"

definition route_loop :: "(string \<times> route_rec) list \<Rightarrow> dot_stmt list \<times> adjacency" where
  \<comment> \<open>\<open>for i, route in enumerate(routes[:30])\<close>, from the gateway node and its empty list\<close>
  "route_loop routes =
     foldl route_step ([DNode ''API_Gateway'' ''API Gateway''], [(''API_Gateway'', [])])
       (enumerate 0 (take 30 routes))"

definition build_route_flow_graph ::
  "world \<Rightarrow> file_analysis list \<Rightarrow> exn + (string option \<times> adjacency)" where
  "build_route_flow_graph w sa =
     (let routes = collect_routes sa
      in if routes = [] then Inr (None, [])
         else (let st = route_loop routes;
                   d = \<lparr>dot_name = ''API Routes'', dot_body = fst st\<rparr>
               in case w_construct w d of
                    Some e \<Rightarrow> Inl e
                  | None \<Rightarrow> Inr (render_graph w d ''api_routes'', snd st)))"


section \<open>Graph builder: component graph\<close>

record comp_data =
  cd_file :: string
  cd_hooks :: "string list"
  cd_imports :: "string list"

definition collect_components ::
  "file_analysis list \<Rightarrow> (string \<times> comp_data) list \<times> adjacency" where
  "collect_components sa =
     foldl (\<lambda>st a.
        foldl (\<lambda>s name.
           (AList.update name
              \<lparr>cd_file = path_to_module (fa_file_path a), cd_hooks = fa_react_hooks a,
               cd_imports = fa_imports a\<rparr> (fst s),
            AList.update name [] (snd s)))
          st (fa_components a))
       ([], []) sa"

definition component_import_base :: "string \<Rightarrow> string" where
  "component_import_base imp = (if CHR ''/'' \<in> set imp then after_last CHR ''/'' imp else imp)"

definition link_import :: "string list \<Rightarrow> string \<Rightarrow> adjacency \<Rightarrow> string \<Rightarrow> adjacency" where
  \<comment> \<open>\<open>for other_comp in comp_names\<close>: no \<open>break\<close>, every match is appended\<close>
  "link_import comp_names comp_name adj imp =
     foldl (\<lambda>ad other_comp.
        if other_comp \<noteq> comp_name \<and> lower other_comp = lower (component_import_base imp)
        then AList.map_entry comp_name (\<lambda>l. l @ [other_comp]) ad else ad)
       adj comp_names"

definition link_components ::
  "string list \<Rightarrow> (string \<times> comp_data) list \<Rightarrow> adjacency \<Rightarrow> adjacency" where
  "link_components comp_names components adj =
     foldl (\<lambda>ad (comp_name, data). foldl (link_import comp_names comp_name) ad (cd_imports data))
       adj components"

definition component_label :: "string \<Rightarrow> comp_data \<Rightarrow> string" where
  "component_label comp_name data =
     (let hooks_str = join '', '' (take 3 (cd_hooks data));
          label = ''<'' @ comp_name @ ''/>''
      in if hooks_str \<noteq> [] then label @ [CHR 0x0A] @ ''['' @ hooks_str @ '']'' else label)"

definition component_dot :: "(string \<times> comp_data) list \<Rightarrow> adjacency \<Rightarrow> dot" where
  "component_dot components adj =
     (let display = take 30 components;
          display_comps = map fst display
      in \<lparr>dot_name = ''React Components'',
          dot_body = map (\<lambda>(comp_name, data). DNode comp_name (component_label comp_name data)) display
            @ map (\<lambda>(src, dst). DEdge src dst)
                (dedup_edges []
                   (concat (map (\<lambda>comp_name.
                      map (\<lambda>child. (comp_name, child))
                        (filter (\<lambda>child. child \<in> set display_comps)
                           (case map_of adj comp_name of None \<Rightarrow> [] | Some l \<Rightarrow> l)))
                      display_comps)))\<rparr>)"

definition component_adjacency :: "world \<Rightarrow> file_analysis list \<Rightarrow> adjacency" where
  \<comment> \<open>the adjacency dictionary after the relationship loop\<close>
  "component_adjacency w sa =
     (let components = fst (collect_components sa)
      in link_components (w_set_order w (map fst components)) components
           (snd (collect_components sa)))"

definition build_component_graph ::
  "world \<Rightarrow> file_analysis list \<Rightarrow> exn + (string option \<times> adjacency)" where
  "build_component_graph w sa =
     (let components = fst (collect_components sa)
      in if components = [] then Inr (None, [])
         else (let adj = component_adjacency w sa;
                   d = component_dot components adj
               in case w_construct w d of
                    Some e \<Rightarrow> Inl e
                  | None \<Rightarrow> Inr (render_graph w d ''component_graph'', adj)))"


section \<open>Graph builder: all graphs\<close>

record graph_result =
  gr_png :: "string option"
  gr_adjacency :: adjacency

record all_graphs =
  module_dependency :: graph_result
  api_routes :: graph_result
  component_graph :: graph_result

definition try_graph :: "exn + (string option \<times> adjacency) \<Rightarrow> graph_result" where
  \<comment> \<open>\<open>try: png, adj = build(...); result[key] = ... except Exception: pass\<close>:
      the entry keeps its initial value when the builder raises\<close>
  "try_graph r =
     (case r of
        Inl e \<Rightarrow> \<lparr>gr_png = None, gr_adjacency = []\<rparr>
      | Inr (png, adj) \<Rightarrow> \<lparr>gr_png = png, gr_adjacency = adj\<rparr>)"

definition build_all_graphs :: "world \<Rightarrow> file_analysis list \<Rightarrow> all_graphs" where
  "build_all_graphs w sa =
     \<lparr>module_dependency = try_graph (build_module_dependency_graph w sa),
      api_routes = try_graph (build_route_flow_graph w sa),
      component_graph = try_graph (build_component_graph w sa)\<rparr>"



section \<open>Python's printed form of values\<close>

text \<open>
  \<open>str(x)\<close> of a list prints \<open>repr\<close> of each element. \<open>repr\<close> of a string puts it in
  single quotes (double quotes when the string has a single quote and no double quote),
  escapes the quote, the backslash, tab, newline and carriage return, and writes every
  other non-printable code point below 256 as \<open>\xNN\<close>.
\<close>

definition hex_digit :: "nat \<Rightarrow> char" where
  "hex_digit n = (if n < 10 then char_of (48 + n) else char_of (87 + n))"

definition is_printable :: "char \<Rightarrow> bool" where
  "is_printable c = (let n = (of_char c :: nat) in (32 \<le> n \<and> n < 127) \<or> (161 \<le> n \<and> n \<noteq> 173))"

definition escape_char :: "char \<Rightarrow> char \<Rightarrow> string" where
  "escape_char quote c =
     (if c = quote \<or> c = CHR 0x5C then [CHR 0x5C, c]
      else if c = CHR 0x09 then [CHR 0x5C, CHR ''t'']
      else if c = CHR 0x0A then [CHR 0x5C, CHR ''n'']
      else if c = CHR 0x0D then [CHR 0x5C, CHR ''r'']
      else if is_printable c then [c]
      else [CHR 0x5C, CHR ''x'', hex_digit (of_char c div 16), hex_digit (of_char c mod 16)])"

definition repr_str :: "string \<Rightarrow> string" where
  "repr_str s =
     (let quote = (if CHR 0x27 \<in> set s \<and> CHR 0x22 \<notin> set s then CHR 0x22 else CHR 0x27)
      in quote # concat (map (escape_char quote) s) @ [quote])"

definition repr_list :: "string list \<Rightarrow> string" where
  \<comment> \<open>a list whose elements are already printed\<close>
  "repr_list items = ''['' @ join '', '' items @ '']''"

definition repr_str_list :: "string list \<Rightarrow> string" where
  "repr_str_list xs = repr_list (map repr_str xs)"

definition repr_bool :: "bool \<Rightarrow> string" where
  "repr_bool b = (if b then ''True'' else ''False'')"

definition repr_key :: "string \<Rightarrow> string \<Rightarrow> string" where
  "repr_key k v = repr_str k @ '': '' @ v"

definition repr_func :: "func_rec \<Rightarrow> string" where
  \<comment> \<open>a function record, its keys in insertion order\<close>
  "repr_func f =
     ''{'' @ join '', ''
        ((case fn_name f of None \<Rightarrow> [] | Some n \<Rightarrow> [repr_key ''name'' (repr_str n)])
         @ (case fn_decorators f of None \<Rightarrow> [] | Some ds \<Rightarrow> [repr_key ''decorators'' (repr_str_list ds)])
         @ (case fn_is_async f of None \<Rightarrow> [] | Some b \<Rightarrow> [repr_key ''is_async'' (repr_bool b)])
         @ (case fn_line f of None \<Rightarrow> [] | Some i \<Rightarrow> [repr_key ''line'' (show_int i)])
         @ (case fn_description f of None \<Rightarrow> [] | Some d \<Rightarrow> [repr_key ''description'' (repr_str d)]))
      @ ''}''"

definition str_functions_components :: "func_rec list \<Rightarrow> string list \<Rightarrow> string" where
  \<comment> \<open>\<open>str(functions + components)\<close>\<close>
  "str_functions_components functions components =
     repr_list (map repr_func functions @ map repr_str components)"

definition is_space :: "char \<Rightarrow> bool" where
  \<comment> \<open>the code points below 256 that \<open>str.strip\<close> removes\<close>
  "is_space c =
     (let n = (of_char c :: nat)
      in (9 \<le> n \<and> n \<le> 13) \<or> (28 \<le> n \<and> n \<le> 32) \<or> n = 133 \<or> n = 160)"

definition strip :: "string \<Rightarrow> string" where
  "strip s = rev (dropWhile is_space (rev (dropWhile is_space s)))"


section \<open>Semantic inference: file-level description\<close>

definition script_language :: "string \<Rightarrow> bool" where
  \<comment> \<open>\<open>language in ["JavaScript", "TypeScript"]\<close>\<close>
  "script_language language = (language = ''JavaScript'' \<or> language = ''TypeScript'')"

definition array_mapping_sentence :: string where
  "array_mapping_sentence = '' It dynamically renders UI elements using array mapping.''"

definition component_intro :: "string \<Rightarrow> string" where
  "component_intro comp_name =
     ''This React functional component named '' @ [CHR 0x27] @ comp_name @ [CHR 0x27]
       @ '' is responsible for rendering UI for the related feature.''"

definition state_hook_sentence :: string where
  "state_hook_sentence = '' It uses React Hooks for state management.''"

definition effect_hook_sentence :: string where
  "effect_hook_sentence = '' It uses lifecycle side effects through useEffect.''"

definition http_sentence :: string where
  "http_sentence = '' It interacts with backend APIs using HTTP requests.''"

definition component_description :: "file_analysis \<Rightarrow> string" where
  \<comment> \<open>the branch \<open>if components and len(components) > 0\<close>: \<open>desc\<close> after its four tests\<close>
  "component_description fa =
     (case fa_components fa of
        [] \<Rightarrow> []
      | comp_name # rest \<Rightarrow>
          component_intro comp_name
          @ (if ''useState'' \<in> set (fa_react_hooks fa) then state_hook_sentence else [])
          @ (if ''useEffect'' \<in> set (fa_react_hooks fa) then effect_hook_sentence else [])
          @ (if \<exists>imp \<in> set [''axios'', ''fetch'']. contains imp (lower (repr_str_list (fa_imports fa)))
             then http_sentence else [])
          @ (if contains ''map'' (lower (str_functions_components (fa_functions fa) (fa_components fa)))
             then array_mapping_sentence else []))"

definition fn_name_or_empty :: "func_rec \<Rightarrow> string" where
  \<comment> \<open>\<open>func.get("name", "")\<close>\<close>
  "fn_name_or_empty func = (case fn_name func of None \<Rightarrow> [] | Some n \<Rightarrow> n)"

definition script_function_sentence :: "func_rec \<Rightarrow> string" where
  "script_function_sentence func =
     (if fn_is_async func = Some True
      then ''This asynchronous backend function '' @ [CHR 0x27] @ fn_name_or_empty func @ [CHR 0x27]
             @ '' likely handles business logic or request processing.''
      else ''This backend function '' @ [CHR 0x27] @ fn_name_or_empty func @ [CHR 0x27]
             @ '' handles specific application logic.'')"

definition script_descriptions :: "world \<Rightarrow> file_analysis \<Rightarrow> string list" where
  "script_descriptions w fa =
     (let func_descriptions = map script_function_sentence (take 3 (fa_functions fa));
          first = (if func_descriptions \<noteq> [] then [join '' '' (take 2 func_descriptions)] else []);
          routes = fa_routes fa;
          route_methods = w_set_order w
            (map (\<lambda>r. upper (case rt_method r of None \<Rightarrow> [] | Some m \<Rightarrow> m)) (take 3 routes))
      in first
         @ (if routes \<noteq> [] \<and> route_methods \<noteq> []
            then [''This file defines API endpoints using Express routing with ''
                    @ join '', '' route_methods @ '' methods.'']
            else []))"

definition python_function_sentence :: "func_rec \<Rightarrow> string" where
  "python_function_sentence func =
     (let decorators = (case fn_decorators func of None \<Rightarrow> [] | Some ds \<Rightarrow> ds)
      in ''This Python function '' @ [CHR 0x27] @ fn_name_or_empty func @ [CHR 0x27]
           @ '' performs backend data processing logic.''
         @ (if \<exists>dec \<in> set [''route'', ''get'', ''post'', ''put'', ''delete''].
                  contains dec (repr_str_list decorators)
            then '' It is exposed as an API endpoint.'' else []))"

definition python_descriptions :: "file_analysis \<Rightarrow> string list" where
  "python_descriptions fa =
     (let func_descriptions = map python_function_sentence (take 3 (fa_functions fa));
          first = (if func_descriptions \<noteq> [] then [join '' '' (take 2 func_descriptions)] else []);
          routes = fa_routes fa
      in first
         @ (if routes \<noteq> []
            then [''This module defines '' @ show_nat (length routes)
                    @ '' API route(s) for handling HTTP requests.'']
            else []))"

definition generate_description :: "world \<Rightarrow> file_analysis \<Rightarrow> string" where
  "generate_description w fa =
     (let language = fa_language fa;
          descriptions =
            (if fa_components fa \<noteq> [] then [component_description fa]
             else if script_language language \<and> fa_functions fa \<noteq> [] then script_descriptions w fa
             else if language = ''Python'' \<and> fa_functions fa \<noteq> [] then python_descriptions fa
             else [])
      in join '' ''
           (if descriptions = []
            then (if script_language language
                  then [''This '' @ language @ '' module contains utility functions and helper methods.'']
                  else if language = ''Python''
                  then [''This Python module provides core functionality for the application.'']
                  else [''This '' @ language @ '' file contains application logic.''])
            else descriptions))"


section \<open>Semantic inference: per-function descriptions\<close>

definition infer_function_purpose :: "string \<Rightarrow> string \<Rightarrow> string list \<Rightarrow> string" where
  "infer_function_purpose func_name language decorators =
     (let name_lower = lower func_name
      in if startswith func_name ''use'' \<and> script_language language
         then ''Custom React hook for managing '' @ drop 3 func_name @ '' state or behavior''
         else if startswith name_lower ''get'' \<or> startswith name_lower ''fetch''
         then ''Retrieves or fetches data''
         else if startswith name_lower ''create'' \<or> startswith name_lower ''add''
         then ''Creates or adds new data''
         else if startswith name_lower ''update'' \<or> startswith name_lower ''edit''
         then ''Updates or modifies existing data''
         else if startswith name_lower ''delete'' \<or> startswith name_lower ''remove''
         then ''Deletes or removes data''
         else if startswith name_lower ''handle''
         then ''Handles '' @ drop 6 func_name @ '' event or action''
         else if startswith name_lower ''on''
         then ''Event handler for '' @ drop 2 func_name
         else if contains ''validate'' name_lower
         then ''Validates data or input''
         else if contains ''process'' name_lower \<or> contains ''parse'' name_lower
         then ''Processes or transforms data''
         else if contains ''render'' name_lower
         then ''Renders UI component or view''
         else if contains ''init'' name_lower \<or> contains ''setup'' name_lower
         then ''Initializes or sets up the application or module''
         else if contains ''login'' name_lower \<or> contains ''auth'' name_lower
         then ''Handles authentication or authorization''
         else if contains ''logout'' name_lower
         then ''Handles user logout''
         else if contains ''api'' name_lower \<or> contains ''request'' name_lower
         then ''Makes API request or handles network communication''
         else if contains ''save'' name_lower \<or> contains ''store'' name_lower
         then ''Saves or stores data''
         else if contains ''load'' name_lower
         then ''Loads data from storage''
         else if contains ''format'' name_lower \<or> contains ''transform'' name_lower
         then ''Formats or transforms data''
         else if contains ''convert'' name_lower
         then ''Converts data from one format to another''
         else if contains ''calculate'' name_lower \<or> contains ''compute'' name_lower
         then ''Performs calculations or computations''
         else if contains ''search'' name_lower \<or> contains ''find'' name_lower
         then ''Searches or finds specific data''
         else if contains ''filter'' name_lower
         then ''Filters data based on criteria''
         else if filter (\<lambda>d. \<exists>x \<in> set [''route'', ''get'', ''post'', ''put'', ''delete'', ''patch''].
                                 contains x (lower d)) decorators \<noteq> []
         then ''API endpoint handler function''
         else if script_language language
         then ''JavaScript/TypeScript utility function''
         else if language = ''Python''
         then ''Python helper function''
         else [])"

text \<open>
  The text-generation backend is optional (\<open>HAS_LOCAL_inference\<close>): \<open>None\<close> when the
  import failed, otherwise the function \<open>gen_func_desc\<close>, which gets the function's name
  and the language and returns a text or raises. The records the parsers build carry
  none of the keys \<open>params\<close>, \<open>returns\<close> and \<open>docstring\<close>, so the other entries of the
  prompt are their defaults.
\<close>

type_synonym backend = "(string \<Rightarrow> string \<Rightarrow> exn + string) option"

definition enhance_function :: "backend \<Rightarrow> string \<Rightarrow> func_rec \<Rightarrow> func_rec" where
  \<comment> \<open>the body of the loop over \<open>functions\<close>\<close>
  "enhance_function gen language func =
     (let func_name = fn_name_or_empty func
      in if strip (case fn_description func of None \<Rightarrow> [] | Some d \<Rightarrow> d) \<noteq> [] then func
         else (let generated = (case gen of
                                  None \<Rightarrow> None
                                | Some g \<Rightarrow> (case g func_name language of
                                              Inl e \<Rightarrow> None
                                            | Inr d \<Rightarrow> Some d));
                   description = (case generated of
                                    Some d \<Rightarrow> if d \<noteq> [] then d
                                              else infer_function_purpose func_name language
                                                     (case fn_decorators func of None \<Rightarrow> [] | Some ds \<Rightarrow> ds)
                                  | None \<Rightarrow> infer_function_purpose func_name language
                                             (case fn_decorators func of None \<Rightarrow> [] | Some ds \<Rightarrow> ds))
               in if description \<noteq> [] then func\<lparr>fn_description := Some description\<rparr> else func))"

definition enhance_function_descriptions ::
  "backend \<Rightarrow> func_rec list \<Rightarrow> string \<Rightarrow> string \<Rightarrow> func_rec list" where
  "enhance_function_descriptions gen functions file_path language =
     map (enhance_function gen language) functions"



section \<open>Static parser: the syntax tree\<close>

text \<open>
  The part of Python's \<open>ast\<close> that \<open>parse_python\<close> looks at. Of an expression it reads
  \<open>Name.id\<close>, \<open>Attribute.value\<close> and \<open>.attr\<close>, and \<open>Call.func\<close>; everything else it only
  hands to \<open>ast.dump\<close>. So a call keeps, besides its function, the text \<open>ast.dump\<close>
  prints for its remaining fields, and any other expression is the text \<open>ast.dump\<close>
  prints for it.

  A node of the tree is one of the five statement kinds the walk acts on, or any other
  node. Each node carries its child nodes in the order of \<open>ast.iter_child_nodes\<close>,
  without the expression children: the walk does nothing at an expression, and no
  statement lies below one. \<open>FunctionDef\<close> carries what \<open>ast.get_docstring\<close> returns.
\<close>

datatype expr =
    Name string
  | Attribute expr string
  | Call expr string
  | OtherExpr string

datatype node =
    ClassDef string "expr list" "expr list" int "node list"
  | FunctionDef string "expr list" int "string option" "node list"
  | AsyncFunctionDef string "expr list" int "string option" "node list"
  | Import "string list"
  | ImportFrom "string option" "string list"
  | Other "node list"

fun ast_dump :: "expr \<Rightarrow> string" where
  \<comment> \<open>\<open>ast.dump(node)\<close> with its default arguments\<close>
  "ast_dump (Name ident) = ''Name(id='' @ repr_str ident @ '', ctx=Load())''"
| "ast_dump (Attribute v attr) =
     ''Attribute(value='' @ ast_dump v @ '', attr='' @ repr_str attr @ '', ctx=Load())''"
| "ast_dump (Call func rest) = ''Call(func='' @ ast_dump func @ rest @ '')''"
| "ast_dump (OtherExpr text) = text"

fun child_nodes :: "node \<Rightarrow> node list" where
  "child_nodes (ClassDef name bases decorator_list lineno body) = body"
| "child_nodes (FunctionDef name decorator_list lineno doc body) = body"
| "child_nodes (AsyncFunctionDef name decorator_list lineno doc body) = body"
| "child_nodes (Import names) = []"
| "child_nodes (ImportFrom module names) = []"
| "child_nodes (Other body) = body"

function walk :: "node list \<Rightarrow> node list" where
  \<comment> \<open>\<open>ast.walk\<close>: breadth first, the argument is the queue \<open>todo\<close>\<close>
  "walk [] = []"
| "walk (n # todo) = n # walk (todo @ child_nodes n)"
  by pat_completeness auto
termination
proof (relation "measure (size_list size)")
  show "wf (measure (size_list size))" by simp
next
  fix n :: node and todo :: "node list"
  have "size_list size (child_nodes n) < Suc (size n)"
    by (cases n) simp_all
  then show "(todo @ child_nodes n, n # todo) \<in> measure (size_list size)"
    by simp
qed


section \<open>Static parser: the grammar-based extractor\<close>

fun attribute_parts :: "expr \<Rightarrow> string list" where
  \<comment> \<open>\<open>parts\<close> in \<open>_get_decorator_string\<close>: the attributes from the outside in, then the
      name the chain starts from, when it starts from a name\<close>
  "attribute_parts (Attribute v attr) = attr # attribute_parts v"
| "attribute_parts (Name ident) = [ident]"
| "attribute_parts e = []"

definition get_decorator_string :: "expr \<Rightarrow> string" where
  "get_decorator_string e = join ''.'' (rev (attribute_parts e))"

fun class_base :: "expr \<Rightarrow> string list" where
  \<comment> \<open>what one element of \<open>node.bases\<close> adds to \<open>bases\<close>\<close>
  "class_base (Name ident) = [ident]"
| "class_base (Attribute v attr) = [ast_dump (Attribute v attr)]"
| "class_base e = []"

fun class_decorator :: "expr \<Rightarrow> string list" where
  "class_decorator (Name ident) = [ident]"
| "class_decorator (Attribute v attr) = [ast_dump (Attribute v attr)]"
| "class_decorator (Call (Name ident) rest) = [ident]"
| "class_decorator (Call (Attribute v attr) rest) = [ast_dump (Attribute v attr)]"
| "class_decorator e = []"

fun function_decorator :: "expr \<Rightarrow> string list" where
  "function_decorator (Name ident) = [ident]"
| "function_decorator (Call (Name ident) rest) = [ident]"
| "function_decorator (Attribute v attr) = [get_decorator_string (Attribute v attr)]"
| "function_decorator (Call (Attribute v attr) rest) = [get_decorator_string (Attribute v attr)]"
| "function_decorator e = []"

definition docstring_description :: "string option \<Rightarrow> string" where
  \<comment> \<open>the first line of the docstring, at most 200 characters; \<open>''''\<close> without docstring\<close>
  "docstring_description doc =
     (case doc of
        None \<Rightarrow> []
      | Some d \<Rightarrow> if d = [] then [] else take 200 (hd (split_on (CHR 0x0A) (strip d))))"

definition is_route_decorator :: "string \<Rightarrow> bool" where
  "is_route_decorator dec_str =
     (\<exists>method \<in> set [''.get'', ''.post'', ''.put'', ''.delete'', ''.patch'', ''.route''].
        contains method (lower dec_str))"

definition visit_function ::
  "bool \<Rightarrow> string \<Rightarrow> expr list \<Rightarrow> int \<Rightarrow> string option \<Rightarrow> file_analysis \<Rightarrow> file_analysis" where
  "visit_function is_async name decorator_list lineno doc result =
     (let decorators = concat (map function_decorator decorator_list)
      in result
           \<lparr>fa_functions := fa_functions result @
              [\<lparr>fn_name = Some name, fn_decorators = Some decorators, fn_is_async = Some is_async,
                fn_line = Some lineno, fn_description = Some (docstring_description doc)\<rparr>],
            fa_routes := fa_routes result @
              map (\<lambda>dec_str. \<lparr>rt_function = Some name, rt_decorator = Some dec_str,
                                rt_line = Some lineno, rt_method = None, rt_path = None\<rparr>)
                (filter is_route_decorator decorators)\<rparr>)"

fun visit :: "file_analysis \<Rightarrow> node \<Rightarrow> file_analysis" where
  \<comment> \<open>the body of the loop \<open>for node in ast.walk(tree)\<close>\<close>
  "visit result (ClassDef name bases decorator_list lineno body) =
     result\<lparr>fa_classes := fa_classes result @
       [\<lparr>cl_name = name, cl_bases = Some (concat (map class_base bases)),
         cl_decorators = Some (concat (map class_decorator decorator_list)),
         cl_line = Some lineno, cl_extends = None\<rparr>]\<rparr>"
| "visit result (FunctionDef name decorator_list lineno doc body) =
     visit_function False name decorator_list lineno doc result"
| "visit result (AsyncFunctionDef name decorator_list lineno doc body) =
     visit_function True name decorator_list lineno doc result"
| "visit result (Import names) = result\<lparr>fa_imports := fa_imports result @ names\<rparr>"
| "visit result (ImportFrom module names) =
     result\<lparr>fa_imports := fa_imports result @
       map (\<lambda>name. (case module of None \<Rightarrow> [] | Some m \<Rightarrow> m) @ ''.'' @ name) names\<rparr>"
| "visit result (Other body) = result"

text \<open>
  \<open>ast.parse\<close> is a parameter: it returns the tree, raises \<open>SyntaxError\<close>, or raises
  something else (a \<open>ValueError\<close> for a null byte, a \<open>RecursionError\<close> for deep nesting),
  which \<open>parse_python\<close> does not catch. The key \<open>decorators\<close> of the result, the set of
  all decorator strings, is read by nothing in the pipeline and is left out.
\<close>

datatype parse_outcome = Parsed node | SyntaxError | Raised exn

definition empty_analysis :: "string \<Rightarrow> string \<Rightarrow> file_analysis" where
  "empty_analysis file_path language =
     \<lparr>fa_file_path = file_path, fa_language = language, fa_classes = [], fa_functions = [],
      fa_components = [], fa_imports = [], fa_routes = [], fa_react_hooks = []\<rparr>"

definition parse_python ::
  "(string \<Rightarrow> string \<Rightarrow> parse_outcome) \<Rightarrow> string \<Rightarrow> string \<Rightarrow> exn + file_analysis" where
  "parse_python ast_parse content file_path =
     (case ast_parse content file_path of
        SyntaxError \<Rightarrow> Inr (empty_analysis file_path ''Python'')
      | Raised e \<Rightarrow> Inl e
      | Parsed tree \<Rightarrow> Inr (foldl visit (empty_analysis file_path ''Python'') (walk [tree])))"


section \<open>Static parser: the pattern-based extractors and the dispatcher\<close>

text \<open>
  The other extractors collect the matches of regular expressions. The matching is a
  parameter: \<open>x_javascript content\<close>, \<open>x_react content\<close> and \<open>x_generic ext content\<close> give
  the collections the passes of \<open>parse_javascript\<close>, \<open>parse_react\<close> and \<open>_parse_generic\<close>
  come to; the path, the language and the assembly of the record are the source's.
\<close>

record scan =
  sc_classes :: "class_rec list"
  sc_functions :: "func_rec list"
  sc_imports :: "string list"
  sc_routes :: "route_rec list"

record extractors =
  x_ast_parse :: "string \<Rightarrow> string \<Rightarrow> parse_outcome"
  x_javascript :: "string \<Rightarrow> scan"
  x_react :: "string \<Rightarrow> string list \<times> string list"
  x_generic :: "string \<Rightarrow> string \<Rightarrow> scan"

definition parse_javascript :: "extractors \<Rightarrow> string \<Rightarrow> string \<Rightarrow> file_analysis" where
  "parse_javascript x content file_path =
     (let lang = (if endswith file_path ''.ts'' \<or> endswith file_path ''.tsx''
                  then ''TypeScript'' else ''JavaScript'');
          found = x_javascript x content
      in \<lparr>fa_file_path = file_path, fa_language = lang, fa_classes = sc_classes found,
          fa_functions = sc_functions found, fa_components = [], fa_imports = sc_imports found,
          fa_routes = sc_routes found, fa_react_hooks = []\<rparr>)"

definition parse_react :: "extractors \<Rightarrow> string \<Rightarrow> string \<Rightarrow> file_analysis" where
  "parse_react x content file_path =
     (parse_javascript x content file_path)
       \<lparr>fa_components := fst (x_react x content), fa_react_hooks := snd (x_react x content)\<rparr>"

definition generic_language :: "string \<Rightarrow> string" where
  \<comment> \<open>\<open>lang_map.get(ext, ext.upper())\<close>\<close>
  "generic_language ext =
     (if ext = ''java'' then ''Java'' else if ext = ''cpp'' then ''C++''
      else if ext = ''go'' then ''Go'' else if ext = ''cs'' then ''C#''
      else if ext = ''php'' then ''PHP'' else upper ext)"

definition parse_generic :: "extractors \<Rightarrow> string \<Rightarrow> string \<Rightarrow> file_analysis" where
  "parse_generic x content file_path =
     (let ext = lower (after_last CHR ''.'' file_path);
          found = x_generic x ext content
      in \<lparr>fa_file_path = file_path, fa_language = generic_language ext,
          fa_classes = sc_classes found, fa_functions = sc_functions found, fa_components = [],
          fa_imports = sc_imports found, fa_routes = sc_routes found, fa_react_hooks = []\<rparr>)"

definition parse_source_file ::
  "extractors \<Rightarrow> string \<Rightarrow> string option \<Rightarrow> exn + file_analysis option" where
  "parse_source_file x file_path content =
     (case content of
        None \<Rightarrow> Inr None
      | Some c \<Rightarrow>
          if endswith file_path ''.py''
          then (case parse_python (x_ast_parse x) c file_path of
                  Inl e \<Rightarrow> Inl e
                | Inr r \<Rightarrow> Inr (Some r))
          else if endswith file_path ''.tsx'' \<or> endswith file_path ''.jsx''
          then Inr (Some (parse_react x c file_path))
          else if endswith file_path ''.js'' \<or> endswith file_path ''.ts''
          then Inr (Some (parse_javascript x c file_path))
          else if endswith file_path ''.java'' \<or> endswith file_path ''.cpp''
                  \<or> endswith file_path ''.go'' \<or> endswith file_path ''.cs''
                  \<or> endswith file_path ''.php''
          then Inr (Some (parse_generic x c file_path))
          else Inr None)"

record source_file =
  sf_path :: string
  sf_content :: "string option"
  sf_size :: int

definition source_extensions :: "string list" where
  "source_extensions =
     [''.py'', ''.js'', ''.ts'', ''.tsx'', ''.jsx'', ''.java'', ''.cpp'', ''.go'', ''.cs'', ''.php'']"

definition file_extension :: "string \<Rightarrow> string" where
  \<comment> \<open>\<open>ext\<close> in \<open>analyze_all_sources\<close>\<close>
  "file_extension path =
     (if CHR ''.'' \<in> set (after_last CHR ''/'' path)
      then ''.'' @ lower (after_last CHR ''.'' path) else [])"

definition has_content :: "source_file \<Rightarrow> bool" where
  \<comment> \<open>\<open>f.get("content")\<close> is truthy: the key is there, and not \<open>None\<close> or \<open>''''\<close>\<close>
  "has_content f = (case sf_content f of None \<Rightarrow> False | Some c \<Rightarrow> c \<noteq> [])"

fun analyze_loop ::
  "extractors \<Rightarrow> source_file list \<Rightarrow> file_analysis list \<Rightarrow> exn + file_analysis list" where
  "analyze_loop x [] results = Inr results"
| "analyze_loop x (f # files) results =
     (if file_extension (sf_path f) \<in> set source_extensions \<and> has_content f
      then (case parse_source_file x (sf_path f) (sf_content f) of
              Inl e \<Rightarrow> Inl e
            | Inr None \<Rightarrow> analyze_loop x files results
            | Inr (Some parsed) \<Rightarrow> analyze_loop x files (results @ [parsed]))
      else analyze_loop x files results)"

definition analyze_all_sources :: "extractors \<Rightarrow> source_file list \<Rightarrow> exn + file_analysis list" where
  "analyze_all_sources x files = analyze_loop x files []"

section \<open>Predicates and example inputs\<close>

definition no_self_edges :: "adjacency \<Rightarrow> bool" where
  "no_self_edges adj = (\<forall>(n, succs) \<in> set adj. n \<notin> set succs)"

definition world_ok :: world where
  \<comment> \<open>the diagram toolchain is installed and works; sets iterate in insertion order\<close>
  "world_ok = \<lparr>w_set_order = remdups, w_construct = (\<lambda>d. None),
                w_mkdtemp = (\<lambda>n. Inr ''/tmp/repo_intel_0''), w_render = (\<lambda>d p. None),
                w_exists = (\<lambda>p. True)\<rparr>"

definition py_file :: "string \<Rightarrow> string list \<Rightarrow> file_analysis" where
  "py_file p imps =
     \<lparr>fa_file_path = p, fa_language = ''Python'', fa_classes = [], fa_functions = [],
      fa_components = [], fa_imports = imps, fa_routes = [], fa_react_hooks = []\<rparr>"

definition tsx_file :: "string \<Rightarrow> string list \<Rightarrow> string list \<Rightarrow> file_analysis" where
  "tsx_file p comps imps =
     \<lparr>fa_file_path = p, fa_language = ''TypeScript'', fa_classes = [], fa_functions = [],
      fa_components = comps, fa_imports = imps, fa_routes = [], fa_react_hooks = [''useState'']\<rparr>"

definition get_route :: "string \<Rightarrow> route_rec" where
  "get_route p = \<lparr>rt_function = None, rt_decorator = None, rt_line = None,
                  rt_method = Some ''GET'', rt_path = Some p\<rparr>"

definition routes31_file :: file_analysis where
  \<comment> \<open>a server file that registers the 31 routes \<open>GET /r0\<close> ... \<open>GET /r30\<close>\<close>
  "routes31_file =
     \<lparr>fa_file_path = ''server.js'', fa_language = ''JavaScript'', fa_classes = [],
      fa_functions = [], fa_components = [], fa_imports = [],
      fa_routes = map (\<lambda>i. get_route (''/r'' @ show_nat i)) [0..<31], fa_react_hooks = []\<rparr>"

definition world_no_graphviz :: world where
  \<comment> \<open>the diagram toolchain is missing: every \<open>render\<close> call raises\<close>
  "world_no_graphviz = world_ok\<lparr>w_render := (\<lambda>d p. Some (Exn ''ExecutableNotFound''))\<rparr>"

definition world_module_raises :: world where
  \<comment> \<open>putting the module diagram together raises; the other two diagrams are fine\<close>
  "world_module_raises =
     world_ok\<lparr>w_construct := (\<lambda>d. if dot_name d = ''Module Dependencies''
                                    then Some (Exn ''RuntimeError'') else None)\<rparr>"

definition module_diagram :: "world \<Rightarrow> file_analysis list \<Rightarrow> dot" where
  \<comment> \<open>the diagram the module graph builder puts together\<close>
  "module_diagram w sa =
     module_dot w (map (\<lambda>a. path_to_module (fa_file_path a)) sa) (fst (module_edges sa))"

definition route_diagram :: "file_analysis list \<Rightarrow> dot" where
  "route_diagram sa = \<lparr>dot_name = ''API Routes'', dot_body = fst (route_loop (collect_routes sa))\<rparr>"

definition component_diagram :: "world \<Rightarrow> file_analysis list \<Rightarrow> dot" where
  "component_diagram w sa = component_dot (fst (collect_components sa)) (component_adjacency w sa)"

definition sample_repo :: "file_analysis list" where
  "sample_repo =
     [tsx_file ''App.tsx'' [''App''] [''./Button'', ''./App''],
      tsx_file ''Button.tsx'' [''Button''] [''./App''],
      (py_file ''api.py'' [''App''])\<lparr>fa_routes := [get_route ''/users'']\<rparr>]"


text \<open>
  The successor list the builders' loops produce for one node, written as a function of
  the node's import tokens: the module builder takes, for each token, the first module
  in dictionary order that matches, unless it is the file's own module; the component
  builder takes, for each token, every other component whose lower-cased name is the
  token's lower-cased last path segment.
\<close>

definition resolve_import :: "string list \<Rightarrow> string \<Rightarrow> string \<Rightarrow> string list" where
  "resolve_import mods source_module imp =
     (case find (module_matches (import_base imp)) mods of
        None \<Rightarrow> []
      | Some m \<Rightarrow> if m \<noteq> source_module then [m] else [])"

definition module_successors :: "string list \<Rightarrow> string \<Rightarrow> string list \<Rightarrow> string list" where
  "module_successors mods source_module imps = concat (map (resolve_import mods source_module) imps)"

definition component_successors :: "string list \<Rightarrow> string \<Rightarrow> string list \<Rightarrow> string list" where
  "component_successors comp_names comp_name imps =
     concat (map (\<lambda>imp. filter (\<lambda>other. other \<noteq> comp_name
                                   \<and> lower other = lower (component_import_base imp)) comp_names)
               imps)"

definition component_entry_of :: "file_analysis \<Rightarrow> comp_data" where
  "component_entry_of a =
     \<lparr>cd_file = path_to_module (fa_file_path a), cd_hooks = fa_react_hooks a,
      cd_imports = fa_imports a\<rparr>"

definition twice_imported_module :: "file_analysis list" where
  "twice_imported_module = [py_file ''a.py'' [''b.x'', ''b.y''], py_file ''b.py'' []]"

definition twice_imported_component :: "file_analysis list" where
  "twice_imported_component =
     [tsx_file ''App.tsx'' [''App''] [''./Button'', ''../ui/Button''],
      tsx_file ''Button.tsx'' [''Button''] []]"

definition js_func :: "string \<Rightarrow> string \<Rightarrow> func_rec" where
  \<comment> \<open>a function record as the pattern-based parsers build it\<close>
  "js_func n d = \<lparr>fn_name = Some n, fn_decorators = None, fn_is_async = None, fn_line = None,
                 fn_description = Some d\<rparr>"

definition py_func :: "string \<Rightarrow> string list \<Rightarrow> bool \<Rightarrow> int \<Rightarrow> string \<Rightarrow> func_rec" where
  \<comment> \<open>a function record as the grammar-based parser builds it\<close>
  "py_func n ds b l d = \<lparr>fn_name = Some n, fn_decorators = Some ds, fn_is_async = Some b,
                        fn_line = Some l, fn_description = Some d\<rparr>"

definition sample_functions :: "func_rec list" where
  "sample_functions =
     [js_func ''getUser'' '''', py_func ''handle_click'' [''app.route''] True 7 ''Handles a click'',
      js_func ''useThing'' ''  '', (js_func ''zzz'' '''')\<lparr>fn_description := None\<rparr>]"

definition map_in_docs_file :: file_analysis where
  "map_in_docs_file =
     (tsx_file ''Tiles.tsx'' [''App''] [''react''])
       \<lparr>fa_functions := [js_func ''load'' ''Loads the map tiles'', js_func ''App'' []]\<rparr>"

definition map_view_file :: file_analysis where
  "map_view_file = tsx_file ''MapView.tsx'' [''MapView''] [''react'']"

definition dotted_base_tree :: node where
  \<comment> \<open>the tree of \<open>class C(module.Base): pass\<close>\<close>
  "dotted_base_tree =
     Other [ClassDef ''C'' [Attribute (Name ''module'') ''Base''] [] 1 [Other []]]"

definition sample_py_tree :: node where
  "sample_py_tree =
     Other [Import [''os''], ImportFrom (Some ''flask'') [''Flask'', ''request''],
            ClassDef ''Api'' [Name ''Base''] [Call (Name ''dataclass'') '', args=[], keywords=[]''] 3
              [FunctionDef ''get'' [Call (Attribute (Name ''app'') ''route'') '', args=[], keywords=[]''] 5
                 (Some ''Return the user.'') [Other []]],
            AsyncFunctionDef ''main'' [] 9 None [Import [''sys'']]]"

definition parser_of :: "node \<Rightarrow> string \<Rightarrow> string \<Rightarrow> parse_outcome" where
  \<comment> \<open>a parser that rejects the text \<open>def (\<close> and reads anything else as the given tree\<close>
  "parser_of tree content file_path = (if content = ''def ('' then SyntaxError else Parsed tree)"

definition analysed :: "source_file \<Rightarrow> bool" where
  \<comment> \<open>the test the extraction loop makes before it calls the dispatcher\<close>
  "analysed f = (file_extension (sf_path f) \<in> set source_extensions \<and> has_content f)"

definition has_parser :: "string \<Rightarrow> bool" where
  \<comment> \<open>the dispatcher has a strategy for the path\<close>
  "has_parser file_path = (\<exists>ext \<in> set source_extensions. endswith file_path ext)"

definition no_scan :: scan where
  "no_scan = \<lparr>sc_classes = [], sc_functions = [], sc_imports = [], sc_routes = []\<rparr>"

definition sample_extractors :: extractors where
  "sample_extractors =
     \<lparr>x_ast_parse = parser_of sample_py_tree, x_javascript = (\<lambda>c. no_scan),
      x_react = (\<lambda>c. ([''App''], [])), x_generic = (\<lambda>e c. no_scan)\<rparr>"

definition sample_files :: "source_file list" where
  "sample_files =
     [\<lparr>sf_path = ''src/a.py'', sf_content = Some ''import os'', sf_size = 9\<rparr>,
      \<lparr>sf_path = ''notes.txt'', sf_content = Some ''hello'', sf_size = 5\<rparr>,
      \<lparr>sf_path = ''b.js'', sf_content = None, sf_size = 120\<rparr>,
      \<lparr>sf_path = ''c.ts'', sf_content = Some [], sf_size = 0\<rparr>,
      \<lparr>sf_path = ''D.PY'', sf_content = Some ''import os'', sf_size = 9\<rparr>,
      \<lparr>sf_path = ''web/App.tsx'', sf_content = Some ''function App() {}'', sf_size = 17\<rparr>]"

definition dotted_base_dump :: string where
  "dotted_base_dump =
     ''Attribute(value=Name(id='' @ [CHR 0x27] @ ''module'' @ [CHR 0x27]
       @ '', ctx=Load()), attr='' @ [CHR 0x27] @ ''Base'' @ [CHR 0x27] @ '', ctx=Load())''"


section \<open>Association lists\<close>

lemma set_update_cases:
  "(k', v') \<in> set (AList.update k v al) \<Longrightarrow> (k', v') \<in> set al \<or> (k' = k \<and> v' = v)"
  by (induction al) (auto split: if_splits)

lemma set_map_entry_cases:
  "(k', v') \<in> set (AList.map_entry k f al) \<Longrightarrow>
     (k', v') \<in> set al \<or> (k' = k \<and> (\<exists>u. (k, u) \<in> set al \<and> v' = f u))"
  by (induction al) (auto split: if_splits)


section \<open>No node is its own successor\<close>

lemma no_self_update: "no_self_edges adj \<Longrightarrow> no_self_edges (AList.update k [] adj)"
  unfolding no_self_edges_def by (auto dest: set_update_cases)

lemma no_self_append:
  "no_self_edges adj \<Longrightarrow> m \<noteq> k \<Longrightarrow> no_self_edges (AList.map_entry k (\<lambda>l. l @ [m]) adj)"
  unfolding no_self_edges_def by (fastforce dest: set_map_entry_cases)

lemma no_self_scan:
  "no_self_edges (snd st) \<Longrightarrow> no_self_edges (snd (scan_modules sm b ms st))"
  by (induction sm b ms st rule: scan_modules.induct) (auto simp: no_self_append)

lemma no_self_imports:
  "no_self_edges (snd st) \<Longrightarrow>
   no_self_edges (snd (foldl (\<lambda>s imp. scan_modules sm (g imp) mods s) st imps))"
  by (induction imps arbitrary: st) (auto simp: no_self_scan)

lemma no_self_analysis_step:
  "no_self_edges (snd st) \<Longrightarrow> no_self_edges (snd (module_analysis_step mods st a))"
  unfolding module_analysis_step_def Let_def
  by (rule no_self_imports) (simp add: no_self_update)

lemma no_self_module_fold:
  "no_self_edges (snd st) \<Longrightarrow> no_self_edges (snd (foldl (module_analysis_step mods) st sa))"
  by (induction sa arbitrary: st) (auto simp: no_self_analysis_step)

lemma no_self_module_edges: "no_self_edges (snd (module_edges sa))"
  unfolding module_edges_def
  by (rule no_self_module_fold) (simp add: no_self_edges_def)

lemma module_graph_adjacency:
  assumes "build_module_dependency_graph w sa = Inr (png, adj)"
  shows "adj = [] \<or> adj = snd (module_edges sa)"
  using assms unfolding build_module_dependency_graph_def Let_def
  by (auto split: if_splits option.splits)

lemma update_empty_lists:
  "\<forall>p \<in> set adj. snd p = [] \<Longrightarrow> \<forall>p \<in> set (AList.update k [] adj). snd p = []"
  by (induction adj) auto

lemma collect_components_inner_empty:
  "\<forall>p \<in> set (snd st). snd p = [] \<Longrightarrow>
   \<forall>p \<in> set (snd (foldl (\<lambda>s name. (AList.update name (f name) (fst s),
                                     AList.update name [] (snd s))) st cs)). snd p = []"
proof (induction cs arbitrary: st)
  case Nil
  then show ?case by simp
next
  case (Cons c cs)
  have "\<forall>p \<in> set (AList.update c [] (snd st)). snd p = []"
    by (rule update_empty_lists) (rule Cons.prems)
  then show ?case
    unfolding foldl_Cons by (intro Cons.IH) simp
qed

lemma collect_components_empty_lists:
  "\<forall>p \<in> set (snd (collect_components sa)). snd p = []"
proof -
  have "\<forall>p \<in> set (snd st). snd p = [] \<Longrightarrow>
     \<forall>p \<in> set (snd (foldl (\<lambda>st a.
        foldl (\<lambda>s name.
           (AList.update name
              \<lparr>cd_file = path_to_module (fa_file_path a), cd_hooks = fa_react_hooks a,
               cd_imports = fa_imports a\<rparr> (fst s),
            AList.update name [] (snd s)))
          st (fa_components a)) st sa)). snd p = []"
    for st :: "(string \<times> comp_data) list \<times> adjacency"
  proof (induction sa arbitrary: st)
    case Nil
    then show ?case by simp
  next
    case (Cons a sa)
    show ?case
      unfolding foldl_Cons
      by (rule Cons.IH, rule collect_components_inner_empty, rule Cons.prems)
  qed
  from this [of "([], [])"] show ?thesis
    unfolding collect_components_def by simp
qed

lemma no_self_link_import:
  "no_self_edges adj \<Longrightarrow> no_self_edges (link_import names c adj imp)"
  unfolding link_import_def
  by (induction names arbitrary: adj) (auto simp: no_self_append)

lemma no_self_link_imports:
  "no_self_edges adj \<Longrightarrow> no_self_edges (foldl (link_import names c) adj imps)"
  by (induction imps arbitrary: adj) (auto simp: no_self_link_import)

lemma no_self_link_components:
  "no_self_edges adj \<Longrightarrow> no_self_edges (link_components names comps adj)"
  unfolding link_components_def
  by (induction comps arbitrary: adj) (auto simp: no_self_link_imports)

lemma no_self_component_adjacency: "no_self_edges (component_adjacency w sa)"
proof -
  have "no_self_edges (snd (collect_components sa))"
    using collect_components_empty_lists [of sa] by (fastforce simp: no_self_edges_def)
  then show ?thesis
    unfolding component_adjacency_def Let_def by (rule no_self_link_components)
qed

lemma component_graph_adjacency:
  assumes "build_component_graph w sa = Inr (png, adj)"
  shows "adj = [] \<or> adj = component_adjacency w sa"
  using assms unfolding build_component_graph_def Let_def
  by (auto split: if_splits option.splits)

text \<open>
  Claim C3. In the adjacency dictionary returned by the module dependency graph builder
  and in the one returned by the component graph builder, no node occurs in its own
  successor list.
\<close>

theorem adjacency_never_self_referential:
  "(build_module_dependency_graph w sa = Inr (png, adj) \<longrightarrow> no_self_edges adj)
   \<and> (build_component_graph w sa = Inr (png', adj') \<longrightarrow> no_self_edges adj')"
proof (intro conjI impI)
  assume "build_module_dependency_graph w sa = Inr (png, adj)"
  then have "adj = [] \<or> adj = snd (module_edges sa)"
    by (rule module_graph_adjacency)
  then show "no_self_edges adj"
    using no_self_module_edges [of sa] by (auto simp: no_self_edges_def)
next
  assume "build_component_graph w sa = Inr (png', adj')"
  then have "adj' = [] \<or> adj' = component_adjacency w sa"
    by (rule component_graph_adjacency)
  then show "no_self_edges adj'"
    using no_self_component_adjacency [of w sa] by (auto simp: no_self_edges_def)
qed

theorem adjacency_never_self_referential_witness:
  "build_module_dependency_graph world_ok
     [tsx_file ''App.tsx'' [''App''] [''./Button'', ''./App''],
      tsx_file ''Button.tsx'' [''Button''] [''./App'']]
     = Inr (Some ''/tmp/repo_intel_0/module_dependencies.png'',
            [(''App'', []), (''Button'', [''App''])])
   \<and> no_self_edges [(''App'', []), (''Button'', [''App''])]
   \<and> build_component_graph world_ok
     [tsx_file ''App.tsx'' [''App''] [''./Button'', ''./App''],
      tsx_file ''Button.tsx'' [''Button''] [''./App'']]
     = Inr (Some ''/tmp/repo_intel_0/component_graph.png'',
            [(''App'', [''Button'']), (''Button'', [''App''])])
   \<and> no_self_edges [(''App'', [''Button'']), (''Button'', [''App''])]"
proof -
  let ?sa = "[tsx_file ''App.tsx'' [''App''] [''./Button'', ''./App''],
              tsx_file ''Button.tsx'' [''Button''] [''./App'']]"
  have m: "build_module_dependency_graph world_ok ?sa
             = Inr (Some ''/tmp/repo_intel_0/module_dependencies.png'',
                    [(''App'', []), (''Button'', [''App''])])"
    by code_simp
  have c: "build_component_graph world_ok ?sa
             = Inr (Some ''/tmp/repo_intel_0/component_graph.png'',
                    [(''App'', [''Button'']), (''Button'', [''App''])])"
    by code_simp
  from adjacency_never_self_referential
         [of world_ok ?sa "Some ''/tmp/repo_intel_0/module_dependencies.png''"
             "[(''App'', []), (''Button'', [''App''])]"
             "Some ''/tmp/repo_intel_0/component_graph.png''"
             "[(''App'', [''Button'']), (''Button'', [''App''])]"]
  show ?thesis using m c by blast
qed


section \<open>The scan over modules ends at the first match\<close>

lemma scan_modules_own_first:
  "\<forall>m \<in> set ms1. \<not> module_matches b m \<Longrightarrow> module_matches b sm \<Longrightarrow>
   scan_modules sm b (ms1 @ sm # ms2) st = st"
  by (cases st) (induction ms1, auto)

lemma module_names_paths:
  "module_names sa = foldl (\<lambda>d p. AList.update (path_to_module p) p d) [] (map fa_file_path sa)"
  unfolding module_names_def by (simp add: foldl_map)

lemma module_analysis_step_skip:
  assumes "\<forall>m \<in> set ms1. \<not> module_matches (import_base imp) m"
    and "module_matches (import_base imp) (path_to_module (fa_file_path a))"
  shows "module_analysis_step (ms1 @ path_to_module (fa_file_path a) # ms2) st
           (a\<lparr>fa_imports := xs @ imp # ys\<rparr>)
       = module_analysis_step (ms1 @ path_to_module (fa_file_path a) # ms2) st
           (a\<lparr>fa_imports := xs @ ys\<rparr>)"
  unfolding module_analysis_step_def Let_def
  by (simp add: scan_modules_own_first [OF assms])

lemma scan_modules_first_match:
  "\<forall>m \<in> set ms1. \<not> module_matches b m \<Longrightarrow> module_matches b m \<Longrightarrow>
   scan_modules sm b (ms1 @ m # ms2) (edges, adj) =
     (if m \<noteq> sm
      then (edges @ [(sm, m)], AList.map_entry sm (\<lambda>l. l @ [m]) adj)
      else (edges, adj))"
  by (induction ms1) auto

lemma scan_modules_no_match:
  "\<forall>m \<in> set mods. \<not> module_matches b m \<Longrightarrow> scan_modules sm b mods st = st"
  by (cases st) (induction mods, auto)

text \<open>
  Claim C10. For every import token of a file, the scan over the module dictionary ends
  at the first module that matches the token's base. If no module matches, the state is
  returned as it was. If \<open>m\<close> is the first match and is not the importing file's module,
  exactly the one edge to \<open>m\<close> is added and \<open>m\<close> is appended once to the file's successor
  list. If the first match is the file's own module, the state is returned as it was: no
  edge is added for the token. In both cases the modules after the first match are never
  looked at: the result is the one for the dictionary cut after the first match, whatever
  comes later, matching or not. For the own-module case the graph builder's result is the
  one it gives with that token removed from the file's import list.
\<close>

theorem scan_stops_at_first_match:
  "((\<forall>m \<in> set mods. \<not> module_matches (import_base imp) m) \<longrightarrow>
       scan_modules sm (import_base imp) mods (edges, adj) = (edges, adj))
   \<and> ((\<forall>m \<in> set front. \<not> module_matches (import_base imp) m) \<and> module_matches (import_base imp) m \<longrightarrow>
       scan_modules sm (import_base imp) (front @ m # later) (edges, adj)
         = (if m \<noteq> sm
            then (edges @ [(sm, m)], AList.map_entry sm (\<lambda>l. l @ [m]) adj)
            else (edges, adj))
       \<and> scan_modules sm (import_base imp) (front @ m # later) (edges, adj)
         = scan_modules sm (import_base imp) (front @ [m]) (edges, adj)
       \<and> (m = path_to_module (fa_file_path a)
            \<and> map fst (module_names (pre @ a\<lparr>fa_imports := xs @ imp # ys\<rparr> # post)) = front @ m # later \<longrightarrow>
          build_module_dependency_graph w (pre @ a\<lparr>fa_imports := xs @ imp # ys\<rparr> # post)
            = build_module_dependency_graph w (pre @ a\<lparr>fa_imports := xs @ ys\<rparr> # post)))"
proof (intro conjI impI)
  assume "\<forall>m \<in> set mods. \<not> module_matches (import_base imp) m"
  then show "scan_modules sm (import_base imp) mods (edges, adj) = (edges, adj)"
    by (rule scan_modules_no_match)
next
  assume h: "(\<forall>m \<in> set front. \<not> module_matches (import_base imp) m)
               \<and> module_matches (import_base imp) m"
  then have b: "\<forall>m \<in> set front. \<not> module_matches (import_base imp) m"
    and t: "module_matches (import_base imp) m"
    by simp_all
  show "scan_modules sm (import_base imp) (front @ m # later) (edges, adj)
         = (if m \<noteq> sm
            then (edges @ [(sm, m)], AList.map_entry sm (\<lambda>l. l @ [m]) adj)
            else (edges, adj))"
    by (rule scan_modules_first_match [OF b t])
next
  assume h: "(\<forall>m \<in> set front. \<not> module_matches (import_base imp) m)
               \<and> module_matches (import_base imp) m"
  then have b: "\<forall>m \<in> set front. \<not> module_matches (import_base imp) m"
    and t: "module_matches (import_base imp) m"
    by simp_all
  have "scan_modules sm (import_base imp) (front @ m # later) (edges, adj)
         = (if m \<noteq> sm
            then (edges @ [(sm, m)], AList.map_entry sm (\<lambda>l. l @ [m]) adj)
            else (edges, adj))"
    by (rule scan_modules_first_match [OF b t])
  also have "\<dots> = scan_modules sm (import_base imp) (front @ m # []) (edges, adj)"
    by (rule scan_modules_first_match [OF b t, symmetric])
  finally show "scan_modules sm (import_base imp) (front @ m # later) (edges, adj)
         = scan_modules sm (import_base imp) (front @ [m]) (edges, adj)" .
next
  assume h: "(\<forall>m \<in> set front. \<not> module_matches (import_base imp) m)
               \<and> module_matches (import_base imp) m"
    and o: "m = path_to_module (fa_file_path a)
            \<and> map fst (module_names (pre @ a\<lparr>fa_imports := xs @ imp # ys\<rparr> # post)) = front @ m # later"
  let ?sa = "pre @ a\<lparr>fa_imports := xs @ imp # ys\<rparr> # post"
  let ?sb = "pre @ a\<lparr>fa_imports := xs @ ys\<rparr> # post"
  let ?mods = "front @ path_to_module (fa_file_path a) # later"
  from h have before: "\<forall>m \<in> set front. \<not> module_matches (import_base imp) m" ..
  from h o have own: "module_matches (import_base imp) (path_to_module (fa_file_path a))"
    by simp
  from o have mods: "map fst (module_names ?sa) = ?mods" by simp
  have names: "module_names ?sb = module_names ?sa"
    by (simp add: module_names_paths)
  have mods_b: "map fst (module_names ?sb) = ?mods"
    using mods names by simp
  have nodes: "map (\<lambda>a. path_to_module (fa_file_path a)) ?sb
             = map (\<lambda>a. path_to_module (fa_file_path a)) ?sa"
    by simp
  have step: "foldl (module_analysis_step ?mods) ([], []) ?sa
            = foldl (module_analysis_step ?mods) ([], []) ?sb"
    by (simp add: module_analysis_step_skip [OF before own])
  show "build_module_dependency_graph w ?sa = build_module_dependency_graph w ?sb"
    unfolding build_module_dependency_graph_def module_edges_def Let_def mods mods_b nodes step ..
qed

theorem scan_stops_at_first_match_witness:
  "\<not> module_matches (import_base ''os.path'') ''a''
   \<and> \<not> module_matches (import_base ''os.path'') ''ab''
   \<and> \<not> module_matches (import_base ''os.path'') ''c''
   \<and> scan_modules ''c'' (import_base ''os.path'') [''a'', ''ab'', ''c''] ([], [(''c'', [])])
       = ([], [(''c'', [])])
   \<and> module_matches (import_base ''b.util'') ''b'' \<and> module_matches (import_base ''b.util'') ''xb''
   \<and> scan_modules ''a'' (import_base ''b.util'') [''a'', ''b'', ''xb''] ([], [(''a'', [])])
       = ([(''a'', ''b'')], [(''a'', [''b''])])
   \<and> module_matches (import_base ''a'') ''a'' \<and> module_matches (import_base ''a'') ''ab''
   \<and> scan_modules ''a'' (import_base ''a'') [''a'', ''ab''] ([], [(''a'', [])])
       = ([], [(''a'', [])])
   \<and> build_module_dependency_graph world_ok
       [py_file ''a.py'' [''os'', ''a'', ''ab''], py_file ''ab.py'' []]
     = build_module_dependency_graph world_ok
       [py_file ''a.py'' [''os'', ''ab''], py_file ''ab.py'' []]"
proof -
  have n: "\<forall>m \<in> set [''a'', ''ab'', ''c'']. \<not> module_matches (import_base ''os.path'') m"
    by code_simp
  have b1: "\<forall>m \<in> set [''a'']. \<not> module_matches (import_base ''b.util'') m" by code_simp
  have b2: "module_matches (import_base ''b.util'') ''b''" by code_simp
  have b3: "module_matches (import_base ''b.util'') ''xb''" by code_simp
  have h1: "map fst (module_names ([] @ (py_file ''a.py'' [])\<lparr>fa_imports := [''os''] @ ''a'' # [''ab'']\<rparr>
                # [py_file ''ab.py'' []]))
              = [] @ ''a'' # [''ab'']"
    by code_simp
  have h2: "\<forall>m \<in> set []. \<not> module_matches (import_base ''a'') m" by simp
  have h3: "module_matches (import_base ''a'') ''a''" by code_simp
  have h4: "module_matches (import_base ''a'') ''ab''" by code_simp
  have h5: "''a'' = path_to_module (fa_file_path (py_file ''a.py'' []))" by code_simp
  have none: "scan_modules ''c'' (import_base ''os.path'') [''a'', ''ab'', ''c''] ([], [(''c'', [])])
       = ([], [(''c'', [])])"
    using scan_stops_at_first_match
      [where imp = "''os.path''" and mods = "[''a'', ''ab'', ''c'']" and sm = "''c''"
         and edges = "[]" and adj = "[(''c'', [])]"] n
    by blast
  have other: "scan_modules ''a'' (import_base ''b.util'') ([''a''] @ ''b'' # [''xb'']) ([], [(''a'', [])])
       = (if ''b'' \<noteq> ''a''
          then ([] @ [(''a'', ''b'')], AList.map_entry ''a'' (\<lambda>l. l @ [''b'']) [(''a'', [])])
          else ([], [(''a'', [])]))"
    using scan_stops_at_first_match
      [where imp = "''b.util''" and front = "[''a'']" and m = "''b''" and later = "[''xb'']"
         and sm = "''a''" and edges = "[]" and adj = "[(''a'', [])]"] b1 b2
    by blast
  have own: "scan_modules ''a'' (import_base ''a'') ([] @ ''a'' # [''ab'']) ([], [(''a'', [])])
       = (if ''a'' \<noteq> ''a''
          then ([] @ [(''a'', ''a'')], AList.map_entry ''a'' (\<lambda>l. l @ [''a'']) [(''a'', [])])
          else ([], [(''a'', [])]))"
    and build: "build_module_dependency_graph world_ok
         ([] @ (py_file ''a.py'' [])\<lparr>fa_imports := [''os''] @ ''a'' # [''ab'']\<rparr> # [py_file ''ab.py'' []])
       = build_module_dependency_graph world_ok
         ([] @ (py_file ''a.py'' [])\<lparr>fa_imports := [''os''] @ [''ab'']\<rparr> # [py_file ''ab.py'' []])"
    using scan_stops_at_first_match
      [where imp = "''a''" and front = "[]" and m = "''a''" and later = "[''ab'']"
         and sm = "''a''" and edges = "[]" and adj = "[(''a'', [])]"
         and a = "py_file ''a.py'' []" and pre = "[]" and xs = "[''os'']" and ys = "[''ab'']"
         and post = "[py_file ''ab.py'' []]" and w = world_ok] h1 h2 h3 h5
    by blast+
  from other have other': "scan_modules ''a'' (import_base ''b.util'') [''a'', ''b'', ''xb''] ([], [(''a'', [])])
       = ([(''a'', ''b'')], [(''a'', [''b''])])"
    by simp
  from own have own': "scan_modules ''a'' (import_base ''a'') [''a'', ''ab''] ([], [(''a'', [])])
       = ([], [(''a'', [])])"
    by simp
  from build have build': "build_module_dependency_graph world_ok
       [py_file ''a.py'' [''os'', ''a'', ''ab''], py_file ''ab.py'' []]
     = build_module_dependency_graph world_ok
       [py_file ''a.py'' [''os'', ''ab''], py_file ''ab.py'' []]"
    by (simp add: py_file_def)
  have n1: "\<not> module_matches (import_base ''os.path'') ''a''" by code_simp
  have n2: "\<not> module_matches (import_base ''os.path'') ''ab''" by code_simp
  have n3: "\<not> module_matches (import_base ''os.path'') ''c''" by code_simp
  show ?thesis
    by (rule conjI [OF n1 conjI [OF n2 conjI [OF n3 conjI [OF none conjI [OF b2 conjI [OF b3 conjI [OF other'
          conjI [OF h3 conjI [OF h4 conjI [OF own' build']]]]]]]]]])
qed


section \<open>The route adjacency list and the display limit\<close>

text \<open>
  Claim C1. The claim asks that the gateway's successor list hold the label of every
  discovered route, the 31st included. The append to the adjacency list sits inside the
  loop over \<open>routes[:30]\<close>, so the list ends with the 30th route: for a file with the 31
  routes \<open>GET /r0\<close> ... \<open>GET /r30\<close> the returned list is the first 30 labels, and
  \<open>GET /r30\<close> is not among them.
\<close>

theorem route_adjacency_omits_31st_route:
  "length (fa_routes routes31_file) = 31
   \<and> route_label (fa_routes routes31_file ! 30) = ''GET /r30''
   \<and> build_route_flow_graph world_ok [routes31_file]
       = Inr (Some ''/tmp/repo_intel_0/api_routes.png'',
              [(''API_Gateway'', map route_label (take 30 (fa_routes routes31_file)))])
   \<and> ''GET /r30'' \<notin> set (map route_label (take 30 (fa_routes routes31_file)))"
  by code_simp


section \<open>Failures stay inside the graph they belong to\<close>

lemma render_graph_unavailable:
  assumes "\<forall>d p. w_render w d p \<noteq> None"
  shows "render_graph w d name = None"
proof (cases "w_mkdtemp w name")
  case (Inl e)
  then show ?thesis by (simp add: render_graph_def)
next
  case (Inr tmp)
  from assms have "w_render w d (tmp @ ''/'' @ name) \<noteq> None" by blast
  then obtain e where "w_render w d (tmp @ ''/'' @ name) = Some e" by blast
  with Inr show ?thesis by (simp add: render_graph_def Let_def)
qed

lemma module_entry:
  "module_dependency (build_all_graphs w sa) =
     (if sa \<noteq> [] \<and> w_construct w (module_diagram w sa) = None
      then \<lparr>gr_png = render_graph w (module_diagram w sa) ''module_dependencies'',
            gr_adjacency = snd (module_edges sa)\<rparr>
      else \<lparr>gr_png = None, gr_adjacency = []\<rparr>)"
  by (auto simp: build_all_graphs_def build_module_dependency_graph_def module_diagram_def
        try_graph_def Let_def split: option.splits)

lemma route_entry:
  "api_routes (build_all_graphs w sa) =
     (if collect_routes sa \<noteq> [] \<and> w_construct w (route_diagram sa) = None
      then \<lparr>gr_png = render_graph w (route_diagram sa) ''api_routes'',
            gr_adjacency = snd (route_loop (collect_routes sa))\<rparr>
      else \<lparr>gr_png = None, gr_adjacency = []\<rparr>)"
  by (auto simp: build_all_graphs_def build_route_flow_graph_def route_diagram_def
        try_graph_def Let_def split: option.splits)

lemma component_entry:
  "component_graph (build_all_graphs w sa) =
     (if fst (collect_components sa) \<noteq> [] \<and> w_construct w (component_diagram w sa) = None
      then \<lparr>gr_png = render_graph w (component_diagram w sa) ''component_graph'',
            gr_adjacency = component_adjacency w sa\<rparr>
      else \<lparr>gr_png = None, gr_adjacency = []\<rparr>)"
  by (auto simp: build_all_graphs_def build_component_graph_def component_diagram_def
        try_graph_def Let_def split: option.splits)

text \<open>
  Claim C6. \<open>build_all_graphs\<close> always returns its three entries; no exception is part of
  its result. Each entry is decided by its own graph alone: when putting that graph's
  diagram together raises (or the graph has no node), the entry is the default, a null
  image and an empty adjacency; otherwise it carries the graph's adjacency, which does
  not depend on the diagram toolchain, and the image that rendering gave. When rendering
  is unavailable (every \<open>render\<close> call raises) all three images are null, and the
  adjacency maps are as before. The component adjacency depends on the world only
  through the iteration order of sets.
\<close>

theorem build_all_graphs_contains_failures:
  "module_dependency (build_all_graphs w sa) =
     (if sa \<noteq> [] \<and> w_construct w (module_diagram w sa) = None
      then \<lparr>gr_png = render_graph w (module_diagram w sa) ''module_dependencies'',
            gr_adjacency = snd (module_edges sa)\<rparr>
      else \<lparr>gr_png = None, gr_adjacency = []\<rparr>)
   \<and> api_routes (build_all_graphs w sa) =
     (if collect_routes sa \<noteq> [] \<and> w_construct w (route_diagram sa) = None
      then \<lparr>gr_png = render_graph w (route_diagram sa) ''api_routes'',
            gr_adjacency = snd (route_loop (collect_routes sa))\<rparr>
      else \<lparr>gr_png = None, gr_adjacency = []\<rparr>)
   \<and> component_graph (build_all_graphs w sa) =
     (if fst (collect_components sa) \<noteq> [] \<and> w_construct w (component_diagram w sa) = None
      then \<lparr>gr_png = render_graph w (component_diagram w sa) ''component_graph'',
            gr_adjacency = component_adjacency w sa\<rparr>
      else \<lparr>gr_png = None, gr_adjacency = []\<rparr>)
   \<and> ((\<forall>d p. w_render w d p \<noteq> None) \<longrightarrow>
        gr_png (module_dependency (build_all_graphs w sa)) = None
        \<and> gr_png (api_routes (build_all_graphs w sa)) = None
        \<and> gr_png (component_graph (build_all_graphs w sa)) = None)
   \<and> (w_set_order w' = w_set_order w \<longrightarrow> component_adjacency w' sa = component_adjacency w sa)"
proof (intro conjI impI)
  assume r: "\<forall>d p. w_render w d p \<noteq> None"
  show "gr_png (module_dependency (build_all_graphs w sa)) = None"
    unfolding module_entry by (simp add: render_graph_unavailable [OF r])
  show "gr_png (api_routes (build_all_graphs w sa)) = None"
    unfolding route_entry by (simp add: render_graph_unavailable [OF r])
  show "gr_png (component_graph (build_all_graphs w sa)) = None"
    unfolding component_entry by (simp add: render_graph_unavailable [OF r])
next
  assume "w_set_order w' = w_set_order w"
  then show "component_adjacency w' sa = component_adjacency w sa"
    by (simp add: component_adjacency_def)
qed (rule module_entry route_entry component_entry)+

theorem build_all_graphs_contains_failures_witness:
  "(\<forall>d p. w_render world_no_graphviz d p \<noteq> None)
   \<and> build_all_graphs world_no_graphviz sample_repo =
       \<lparr>module_dependency = \<lparr>gr_png = None,
           gr_adjacency = [(''App'', []), (''Button'', [''App'']), (''api'', [''App''])]\<rparr>,
        api_routes = \<lparr>gr_png = None, gr_adjacency = [(''API_Gateway'', [''GET /users''])]\<rparr>,
        component_graph = \<lparr>gr_png = None,
           gr_adjacency = [(''App'', [''Button'']), (''Button'', [''App''])]\<rparr>\<rparr>
   \<and> w_construct world_module_raises (module_diagram world_module_raises sample_repo) \<noteq> None
   \<and> build_all_graphs world_module_raises sample_repo =
       \<lparr>module_dependency = \<lparr>gr_png = None, gr_adjacency = []\<rparr>,
        api_routes = \<lparr>gr_png = Some ''/tmp/repo_intel_0/api_routes.png'',
           gr_adjacency = [(''API_Gateway'', [''GET /users''])]\<rparr>,
        component_graph = \<lparr>gr_png = Some ''/tmp/repo_intel_0/component_graph.png'',
           gr_adjacency = [(''App'', [''Button'']), (''Button'', [''App''])]\<rparr>\<rparr>"
proof -
  have r: "\<forall>d p. w_render world_no_graphviz d p \<noteq> None"
    by (simp add: world_no_graphviz_def)
  have png: "gr_png (module_dependency (build_all_graphs world_no_graphviz sample_repo)) = None
      \<and> gr_png (api_routes (build_all_graphs world_no_graphviz sample_repo)) = None
      \<and> gr_png (component_graph (build_all_graphs world_no_graphviz sample_repo)) = None"
    using build_all_graphs_contains_failures [of world_no_graphviz sample_repo] r by blast
  have adj: "gr_adjacency (module_dependency (build_all_graphs world_no_graphviz sample_repo))
        = [(''App'', []), (''Button'', [''App'']), (''api'', [''App''])]
      \<and> gr_adjacency (api_routes (build_all_graphs world_no_graphviz sample_repo))
        = [(''API_Gateway'', [''GET /users''])]
      \<and> gr_adjacency (component_graph (build_all_graphs world_no_graphviz sample_repo))
        = [(''App'', [''Button'']), (''Button'', [''App''])]"
    by code_simp
  have c: "w_construct world_module_raises (module_diagram world_module_raises sample_repo) \<noteq> None"
    by (simp add: world_module_raises_def module_diagram_def module_dot_def Let_def)
  have m: "build_all_graphs world_module_raises sample_repo =
       \<lparr>module_dependency = \<lparr>gr_png = None, gr_adjacency = []\<rparr>,
        api_routes = \<lparr>gr_png = Some ''/tmp/repo_intel_0/api_routes.png'',
           gr_adjacency = [(''API_Gateway'', [''GET /users''])]\<rparr>,
        component_graph = \<lparr>gr_png = Some ''/tmp/repo_intel_0/component_graph.png'',
           gr_adjacency = [(''App'', [''Button'']), (''Button'', [''App''])]\<rparr>\<rparr>"
    by code_simp
  have n: "build_all_graphs world_no_graphviz sample_repo =
       \<lparr>module_dependency = \<lparr>gr_png = None,
           gr_adjacency = [(''App'', []), (''Button'', [''App'']), (''api'', [''App''])]\<rparr>,
        api_routes = \<lparr>gr_png = None, gr_adjacency = [(''API_Gateway'', [''GET /users''])]\<rparr>,
        component_graph = \<lparr>gr_png = None,
           gr_adjacency = [(''App'', [''Button'']), (''Button'', [''App''])]\<rparr>\<rparr>"
    using png adj
    by (cases "build_all_graphs world_no_graphviz sample_repo",
        cases "module_dependency (build_all_graphs world_no_graphviz sample_repo)",
        cases "api_routes (build_all_graphs world_no_graphviz sample_repo)",
        cases "component_graph (build_all_graphs world_no_graphviz sample_repo)") simp
  from r n c m show ?thesis by blast
qed



section \<open>What a successor list holds\<close>

lemma map_entry_ident: "AList.map_entry k (\<lambda>l. l) al = al"
  by (induction al) auto

lemma map_entry_twice:
  "AList.map_entry k f (AList.map_entry k g al) = AList.map_entry k (\<lambda>v. f (g v)) al"
  by (induction al) auto

lemma scan_modules_resolve:
  "scan_modules sm (import_base imp) mods (edges, adj) =
     (edges @ map (Pair sm) (resolve_import mods sm imp),
      AList.map_entry sm (\<lambda>l. l @ resolve_import mods sm imp) adj)"
  by (induction mods) (auto simp: resolve_import_def map_entry_ident)

lemma import_loop_resolve:
  "foldl (\<lambda>s imp. scan_modules sm (import_base imp) mods s) (edges, adj) imps =
     (edges @ map (Pair sm) (module_successors mods sm imps),
      AList.map_entry sm (\<lambda>l. l @ module_successors mods sm imps) adj)"
proof (induction imps arbitrary: edges adj)
  case Nil
  then show ?case by (simp add: module_successors_def map_entry_ident)
next
  case (Cons imp imps)
  show ?case
    by (simp add: scan_modules_resolve Cons.IH map_entry_twice module_successors_def)
qed

lemma module_analysis_step_lookup:
  "map_of (snd (module_analysis_step mods st a)) =
     (map_of (snd st))(path_to_module (fa_file_path a) \<mapsto>
        module_successors mods (path_to_module (fa_file_path a)) (fa_imports a))"
proof -
  obtain edges adj where st: "st = (edges, adj)" by (cases st)
  show ?thesis
    unfolding module_analysis_step_def Let_def st
    by (simp add: import_loop_resolve map_of_map_entry update_conv')
qed

lemma find_append_cases:
  "find P (xs @ ys) = (case find P xs of None \<Rightarrow> find P ys | Some x \<Rightarrow> Some x)"
  by (induction xs) auto

lemma module_fold_lookup:
  "map_of (snd (foldl (module_analysis_step mods) st sa)) n =
     (case find (\<lambda>a. path_to_module (fa_file_path a) = n) (rev sa) of
        None \<Rightarrow> map_of (snd st) n
      | Some a \<Rightarrow> Some (module_successors mods n (fa_imports a)))"
proof (induction sa arbitrary: st)
  case Nil
  then show ?case by simp
next
  case (Cons a sa)
  show ?case
    by (simp add: Cons.IH find_append_cases module_analysis_step_lookup split: option.splits)
qed

lemma module_edges_lookup:
  "map_of (snd (module_edges sa)) n =
     map_option (\<lambda>a. module_successors (map fst (module_names sa)) n (fa_imports a))
       (find (\<lambda>a. path_to_module (fa_file_path a) = n) (rev sa))"
  unfolding module_edges_def by (simp add: module_fold_lookup split: option.splits)

lemma link_import_filter:
  "foldl (\<lambda>ad other_comp. if P other_comp
            then AList.map_entry c (\<lambda>l. l @ [other_comp]) ad else ad) adj names
   = AList.map_entry c (\<lambda>l. l @ filter P names) adj"
  by (induction names arbitrary: adj) (auto simp: map_entry_ident map_entry_twice)

lemma link_import_eq:
  "link_import names c adj imp =
     AList.map_entry c (\<lambda>l. l @ component_successors names c [imp]) adj"
  unfolding link_import_def component_successors_def
  by (simp add: link_import_filter)

lemma component_successors_Cons:
  "component_successors names c (imp # imps) =
     component_successors names c [imp] @ component_successors names c imps"
  by (simp add: component_successors_def)

lemma link_imports_eq:
  "foldl (link_import names c) adj imps =
     AList.map_entry c (\<lambda>l. l @ component_successors names c imps) adj"
proof (induction imps arbitrary: adj)
  case Nil
  then show ?case by (simp add: component_successors_def map_entry_ident)
next
  case (Cons imp imps)
  have "foldl (link_import names c) adj (imp # imps)
          = foldl (link_import names c) (link_import names c adj imp) imps"
    by simp
  also have "\<dots> = AList.map_entry c (\<lambda>l. l @ component_successors names c imps)
                      (link_import names c adj imp)"
    by (rule Cons.IH)
  also have "\<dots> = AList.map_entry c (\<lambda>l. l @ component_successors names c (imp # imps)) adj"
    by (simp only: link_import_eq map_entry_twice append_assoc
          component_successors_Cons [of names c imp imps])
  finally show ?case .
qed

lemma map_of_map_entry_at:
  "map_of (AList.map_entry k f al) n = (if n = k then map_option f (map_of al k) else map_of al n)"
  by (simp add: map_of_map_entry split: option.splits)

lemma link_components_entries:
  "link_components names comps adj =
     foldl (\<lambda>ad p. AList.map_entry (fst p)
                      (\<lambda>l. l @ component_successors names (fst p) (cd_imports (snd p))) ad)
       adj comps"
  unfolding link_components_def
  by (rule arg_cong [where f = "\<lambda>f. foldl f adj comps"]) (auto simp: link_imports_eq fun_eq_iff)

lemma entries_fold_lookup:
  "map_of (foldl (\<lambda>ad p. AList.map_entry (fst p) (\<lambda>l. l @ g p) ad) adj comps) n =
     map_option (\<lambda>l. l @ concat (map g (filter (\<lambda>p. fst p = n) comps))) (map_of adj n)"
proof (induction comps arbitrary: adj)
  case Nil
  then show ?case by (simp add: option.map_ident)
next
  case (Cons p comps)
  show ?case
    unfolding foldl_Cons Cons.IH
    by (simp add: map_of_map_entry_at option.map_comp comp_def)
qed

lemma link_components_lookup:
  "map_of (link_components names comps adj) n =
     map_option (\<lambda>l. l @ concat (map (\<lambda>p. component_successors names (fst p) (cd_imports (snd p)))
                                   (filter (\<lambda>p. fst p = n) comps)))
       (map_of adj n)"
  unfolding link_components_entries by (rule entries_fold_lookup)

lemma filter_key_distinct:
  "distinct (map fst al) \<Longrightarrow>
   filter (\<lambda>p. fst p = n) al = (case map_of al n of None \<Rightarrow> [] | Some d \<Rightarrow> [(n, d)])"
proof (induction al)
  case Nil
  then show ?case by simp
next
  case (Cons p al)
  then show ?case
    by (cases p) (auto split: option.splits simp: map_of_eq_None_iff[symmetric] filter_empty_conv
                    dest: map_of_SomeD)
qed

lemma collect_inner_keys:
  "map fst (fst st) = map fst (snd st) \<Longrightarrow>
   map fst (fst (foldl (\<lambda>s name. (AList.update name v (fst s), AList.update name [] (snd s))) st cs))
   = map fst (snd (foldl (\<lambda>s name. (AList.update name v (fst s), AList.update name [] (snd s))) st cs))"
  by (induction cs arbitrary: st) (auto simp: update_keys)

lemma collect_inner_distinct:
  "distinct (map fst (fst st)) \<Longrightarrow>
   distinct (map fst (fst (foldl (\<lambda>s name. (AList.update name v (fst s), AList.update name [] (snd s))) st cs)))"
  by (induction cs arbitrary: st) (auto simp: distinct_update)

lemma collect_inner_lookup:
  "map_of (fst (foldl (\<lambda>s name. (AList.update name v (fst s), AList.update name [] (snd s))) st cs)) n
   = (if n \<in> set cs then Some v else map_of (fst st) n)"
  by (induction cs arbitrary: st) (auto simp: update_conv')

lemma collect_components_fold:
  "collect_components sa =
     foldl (\<lambda>st a. foldl (\<lambda>s name. (AList.update name (component_entry_of a) (fst s),
                                       AList.update name [] (snd s))) st (fa_components a))
       ([], []) sa"
  unfolding collect_components_def component_entry_of_def ..

lemma collect_outer_keys:
  "map fst (fst st) = map fst (snd st) \<Longrightarrow>
   map fst (fst (foldl (\<lambda>st a. foldl (\<lambda>s name. (AList.update name (f a) (fst s),
                                       AList.update name [] (snd s))) st (g a)) st sa))
   = map fst (snd (foldl (\<lambda>st a. foldl (\<lambda>s name. (AList.update name (f a) (fst s),
                                       AList.update name [] (snd s))) st (g a)) st sa))"
proof (induction sa arbitrary: st)
  case Nil
  then show ?case by simp
next
  case (Cons a sa)
  show ?case
    unfolding foldl_Cons
    by (rule Cons.IH, rule collect_inner_keys, rule Cons.prems)
qed

lemma collect_outer_distinct:
  "distinct (map fst (fst st)) \<Longrightarrow>
   distinct (map fst (fst (foldl (\<lambda>st a. foldl (\<lambda>s name. (AList.update name (f a) (fst s),
                                       AList.update name [] (snd s))) st (g a)) st sa)))"
proof (induction sa arbitrary: st)
  case Nil
  then show ?case by simp
next
  case (Cons a sa)
  show ?case
    unfolding foldl_Cons
    by (rule Cons.IH, rule collect_inner_distinct, rule Cons.prems)
qed

lemma collect_outer_lookup:
  "map_of (fst (foldl (\<lambda>st a. foldl (\<lambda>s name. (AList.update name (f a) (fst s),
                                       AList.update name [] (snd s))) st (g a)) st sa)) n
   = (case find (\<lambda>a. n \<in> set (g a)) (rev sa) of
        None \<Rightarrow> map_of (fst st) n
      | Some a \<Rightarrow> Some (f a))"
proof (induction sa arbitrary: st)
  case Nil
  then show ?case by simp
next
  case (Cons a sa)
  show ?case
    unfolding foldl_Cons Cons.IH
    by (simp add: find_append_cases collect_inner_lookup split: option.splits)
qed

lemma collect_components_keys:
  "map fst (fst (collect_components sa)) = map fst (snd (collect_components sa))"
  unfolding collect_components_fold by (rule collect_outer_keys) simp

lemma collect_components_distinct: "distinct (map fst (fst (collect_components sa)))"
  unfolding collect_components_fold by (rule collect_outer_distinct) simp

lemma collect_components_lookup:
  "map_of (fst (collect_components sa)) n =
     map_option component_entry_of (find (\<lambda>a. n \<in> set (fa_components a)) (rev sa))"
  unfolding collect_components_fold
  by (simp add: collect_outer_lookup split: option.splits)

lemma collect_components_initial:
  "map_of (snd (collect_components sa)) n =
     map_option (\<lambda>d. []) (map_of (fst (collect_components sa)) n)"
proof (cases "map_of (snd (collect_components sa)) n")
  case None
  then have "n \<notin> fst ` set (snd (collect_components sa))"
    by (simp add: map_of_eq_None_iff)
  then have "n \<notin> fst ` set (fst (collect_components sa))"
    using collect_components_keys [of sa] by (metis set_map)
  then have "map_of (fst (collect_components sa)) n = None"
    by (simp add: map_of_eq_None_iff)
  with None show ?thesis by simp
next
  case (Some l)
  then have "(n, l) \<in> set (snd (collect_components sa))" by (rule map_of_SomeD)
  then have l: "l = []" and "n \<in> fst ` set (snd (collect_components sa))"
    using collect_components_empty_lists [of sa] by force+
  then have "n \<in> fst ` set (fst (collect_components sa))"
    using collect_components_keys [of sa] by (metis set_map)
  then obtain d where "map_of (fst (collect_components sa)) n = Some d"
    by (metis map_of_eq_None_iff not_Some_eq)
  with Some l show ?thesis by simp
qed

lemma component_adjacency_lookup:
  "map_of (component_adjacency w sa) n =
     map_option (\<lambda>a. component_successors (w_set_order w (map fst (fst (collect_components sa))))
                        n (fa_imports a))
       (find (\<lambda>a. n \<in> set (fa_components a)) (rev sa))"
proof -
  let ?comps = "fst (collect_components sa)"
  let ?names = "w_set_order w (map fst ?comps)"
  have "map_of (component_adjacency w sa) n =
          map_option (\<lambda>d. component_successors ?names n (cd_imports d)) (map_of ?comps n)"
    unfolding component_adjacency_def Let_def link_components_lookup
      filter_key_distinct [OF collect_components_distinct] collect_components_initial
    by (cases "map_of ?comps n") simp_all
  then show ?thesis
    by (simp add: collect_components_lookup option.map_comp comp_def component_entry_of_def)
qed

text \<open>
  Claim C2, as stated, fails: a file whose import tokens \<open>b.x\<close> and \<open>b.y\<close> both resolve
  to module \<open>b\<close> gets the successor list \<open>[b, b]\<close>, and a component file that imports
  \<open>./Button\<close> and \<open>../ui/Button\<close> gets \<open>[Button, Button]\<close>.
\<close>

theorem successor_lists_duplicate_free_counterexample:
  "build_module_dependency_graph world_ok twice_imported_module
     = Inr (Some ''/tmp/repo_intel_0/module_dependencies.png'',
            [(''a'', [''b'', ''b'']), (''b'', [])])
   \<and> \<not> distinct [''b'', ''b'']
   \<and> build_component_graph world_ok twice_imported_component
     = Inr (Some ''/tmp/repo_intel_0/component_graph.png'',
            [(''App'', [''Button'', ''Button'']), (''Button'', [])])
   \<and> \<not> distinct [''Button'', ''Button'']"
  by code_simp

text \<open>
  Claim C2, amended. In the adjacency dictionaries returned by the module dependency
  graph builder and by the component graph builder, the successor list of a node holds,
  in the order of the import tokens of the last file that defines the node, one entry
  for each resolution of a token to another node. Nothing is removed from the list: a
  node is listed once for every token that resolves to it.
\<close>

theorem successor_lists_follow_import_tokens:
  "(build_module_dependency_graph w sa = Inr (png, adj) \<longrightarrow>
      (\<forall>n. map_of adj n =
         map_option (\<lambda>a. module_successors (map fst (module_names sa)) n (fa_imports a))
           (find (\<lambda>a. path_to_module (fa_file_path a) = n) (rev sa))))
   \<and> (build_component_graph w sa = Inr (png', adj') \<longrightarrow>
      (\<forall>n. map_of adj' n =
         map_option (\<lambda>a. component_successors
                            (w_set_order w (map fst (fst (collect_components sa)))) n (fa_imports a))
           (find (\<lambda>a. n \<in> set (fa_components a)) (rev sa))))"
proof (intro conjI impI allI)
  fix n
  assume "build_module_dependency_graph w sa = Inr (png, adj)"
  then have "(sa = [] \<and> adj = []) \<or> adj = snd (module_edges sa)"
    unfolding build_module_dependency_graph_def Let_def
    by (auto split: if_splits option.splits)
  then show "map_of adj n =
         map_option (\<lambda>a. module_successors (map fst (module_names sa)) n (fa_imports a))
           (find (\<lambda>a. path_to_module (fa_file_path a) = n) (rev sa))"
    by (auto simp: module_edges_lookup)
next
  fix n
  assume "build_component_graph w sa = Inr (png', adj')"
  then have "(fst (collect_components sa) = [] \<and> adj' = []) \<or> adj' = component_adjacency w sa"
    unfolding build_component_graph_def Let_def
    by (auto split: if_splits option.splits)
  then show "map_of adj' n =
         map_option (\<lambda>a. component_successors
                            (w_set_order w (map fst (fst (collect_components sa)))) n (fa_imports a))
           (find (\<lambda>a. n \<in> set (fa_components a)) (rev sa))"
  proof
    assume e: "fst (collect_components sa) = [] \<and> adj' = []"
    then have "map_of (fst (collect_components sa)) n = None" by simp
    then have "find (\<lambda>a. n \<in> set (fa_components a)) (rev sa) = None"
      by (simp add: collect_components_lookup)
    with e show ?thesis by simp
  next
    assume "adj' = component_adjacency w sa"
    then show ?thesis by (simp add: component_adjacency_lookup)
  qed
qed

theorem successor_lists_follow_import_tokens_witness:
  "build_module_dependency_graph world_ok twice_imported_module
     = Inr (Some ''/tmp/repo_intel_0/module_dependencies.png'',
            [(''a'', [''b'', ''b'']), (''b'', [])])
   \<and> map_option (\<lambda>a. module_successors (map fst (module_names twice_imported_module)) ''a''
                        (fa_imports a))
        (find (\<lambda>a. path_to_module (fa_file_path a) = ''a'') (rev twice_imported_module))
     = Some [''b'', ''b'']
   \<and> build_component_graph world_ok twice_imported_component
     = Inr (Some ''/tmp/repo_intel_0/component_graph.png'',
            [(''App'', [''Button'', ''Button'']), (''Button'', [])])
   \<and> map_option (\<lambda>a. component_successors
                        (w_set_order world_ok (map fst (fst (collect_components twice_imported_component))))
                        ''App'' (fa_imports a))
        (find (\<lambda>a. ''App'' \<in> set (fa_components a)) (rev twice_imported_component))
     = Some [''Button'', ''Button'']"
proof -
  have m: "build_module_dependency_graph world_ok twice_imported_module
     = Inr (Some ''/tmp/repo_intel_0/module_dependencies.png'',
            [(''a'', [''b'', ''b'']), (''b'', [])])"
    by code_simp
  have c: "build_component_graph world_ok twice_imported_component
     = Inr (Some ''/tmp/repo_intel_0/component_graph.png'',
            [(''App'', [''Button'', ''Button'']), (''Button'', [])])"
    by code_simp
  from successor_lists_follow_import_tokens
         [where w = world_ok and sa = twice_imported_module] m
  have "map_of [(''a'', [''b'', ''b'']), (''b'', [])] ''a'' =
          map_option (\<lambda>a. module_successors (map fst (module_names twice_imported_module)) ''a''
                        (fa_imports a))
           (find (\<lambda>a. path_to_module (fa_file_path a) = ''a'') (rev twice_imported_module))"
    by blast
  then have m': "map_option (\<lambda>a. module_successors (map fst (module_names twice_imported_module)) ''a''
                        (fa_imports a))
        (find (\<lambda>a. path_to_module (fa_file_path a) = ''a'') (rev twice_imported_module))
     = Some [''b'', ''b'']"
    by simp
  from successor_lists_follow_import_tokens
         [where w = world_ok and sa = twice_imported_component] c
  have "map_of [(''App'', [''Button'', ''Button'']), (''Button'', [])] ''App'' =
          map_option (\<lambda>a. component_successors
                        (w_set_order world_ok (map fst (fst (collect_components twice_imported_component))))
                        ''App'' (fa_imports a))
        (find (\<lambda>a. ''App'' \<in> set (fa_components a)) (rev twice_imported_component))"
    by blast
  then have c': "map_option (\<lambda>a. component_successors
                        (w_set_order world_ok (map fst (fst (collect_components twice_imported_component))))
                        ''App'' (fa_imports a))
        (find (\<lambda>a. ''App'' \<in> set (fa_components a)) (rev twice_imported_component))
     = Some [''Button'', ''Button'']"
    by simp
  from m m' c c' show ?thesis by blast
qed


section \<open>Enhancing function descriptions leaves the rest alone\<close>

lemma enhance_function_frame:
  "fn_name (enhance_function gen language f) = fn_name f
   \<and> fn_decorators (enhance_function gen language f) = fn_decorators f
   \<and> fn_is_async (enhance_function gen language f) = fn_is_async f
   \<and> fn_line (enhance_function gen language f) = fn_line f"
  unfolding enhance_function_def Let_def by simp

lemma enhance_function_described:
  "strip (case fn_description f of None \<Rightarrow> [] | Some d \<Rightarrow> d) \<noteq> [] \<Longrightarrow>
   enhance_function gen language f = f"
  unfolding enhance_function_def Let_def by simp

lemma enhance_function_cases:
  "enhance_function gen language f = f
   \<or> (\<exists>d. d \<noteq> [] \<and> enhance_function gen language f = f\<lparr>fn_description := Some d\<rparr>)"
  unfolding enhance_function_def Let_def by (auto split: option.splits sum.splits)

text \<open>
  Claim C9. Whatever the text-generation backend (absent, failing or answering),
  \<open>enhance_function_descriptions\<close> returns a list of the same length in the same order.
  In every record the name, the decorators, the async flag and the line are unchanged;
  a record whose description is not blank is returned as it is; any other record is
  returned as it is or with a new, non-empty description and nothing else changed.
\<close>

theorem enhance_changes_only_blank_descriptions:
  "length (enhance_function_descriptions gen fs path language) = length fs
   \<and> (\<forall>i < length fs.
        fn_name (enhance_function_descriptions gen fs path language ! i) = fn_name (fs ! i)
        \<and> fn_decorators (enhance_function_descriptions gen fs path language ! i) = fn_decorators (fs ! i)
        \<and> fn_is_async (enhance_function_descriptions gen fs path language ! i) = fn_is_async (fs ! i)
        \<and> fn_line (enhance_function_descriptions gen fs path language ! i) = fn_line (fs ! i)
        \<and> (strip (case fn_description (fs ! i) of None \<Rightarrow> [] | Some d \<Rightarrow> d) \<noteq> [] \<longrightarrow>
              enhance_function_descriptions gen fs path language ! i = fs ! i)
        \<and> (enhance_function_descriptions gen fs path language ! i = fs ! i
             \<or> (\<exists>d. d \<noteq> [] \<and> enhance_function_descriptions gen fs path language ! i
                                = (fs ! i)\<lparr>fn_description := Some d\<rparr>)))"
  unfolding enhance_function_descriptions_def
  using enhance_function_frame enhance_function_described enhance_function_cases
  by (simp add: enhance_function_frame enhance_function_described)

theorem enhance_changes_only_blank_descriptions_witness:
  "enhance_function_descriptions None sample_functions ''a.js'' ''JavaScript'' =
     [js_func ''getUser'' ''Retrieves or fetches data'',
      py_func ''handle_click'' [''app.route''] True 7 ''Handles a click'',
      js_func ''useThing'' ''Custom React hook for managing Thing state or behavior'',
      js_func ''zzz'' ''JavaScript/TypeScript utility function'']
   \<and> strip (case fn_description (sample_functions ! 1) of None \<Rightarrow> [] | Some d \<Rightarrow> d) \<noteq> []
   \<and> enhance_function_descriptions None sample_functions ''a.js'' ''JavaScript'' ! 1 = sample_functions ! 1
   \<and> fn_name (enhance_function_descriptions None sample_functions ''a.js'' ''JavaScript'' ! 0)
       = fn_name (sample_functions ! 0)"
proof -
  have e: "enhance_function_descriptions None sample_functions ''a.js'' ''JavaScript'' =
     [js_func ''getUser'' ''Retrieves or fetches data'',
      py_func ''handle_click'' [''app.route''] True 7 ''Handles a click'',
      js_func ''useThing'' ''Custom React hook for managing Thing state or behavior'',
      js_func ''zzz'' ''JavaScript/TypeScript utility function'']"
    by code_simp
  have l: "(1::nat) < length sample_functions" "(0::nat) < length sample_functions"
    by (simp_all add: sample_functions_def)
  have s: "strip (case fn_description (sample_functions ! 1) of None \<Rightarrow> [] | Some d \<Rightarrow> d) \<noteq> []"
    by code_simp
  from enhance_changes_only_blank_descriptions [of None sample_functions "''a.js''" "''JavaScript''"]
    l s
  have "enhance_function_descriptions None sample_functions ''a.js'' ''JavaScript'' ! 1 = sample_functions ! 1"
    and "fn_name (enhance_function_descriptions None sample_functions ''a.js'' ''JavaScript'' ! 0)
       = fn_name (sample_functions ! 0)"
    by blast+
  with e s show ?thesis by blast
qed


section \<open>The array-mapping sentence of a component description\<close>

lemma startswith_iff: "startswith s p \<longleftrightarrow> (\<exists>v. s = p @ v)"
  unfolding startswith_def
  by (metis append_eq_conv_conj append_take_drop_id)

lemma contains_iff: "contains p s \<longleftrightarrow> (\<exists>u v. s = u @ p @ v)"
proof (induction s)
  case Nil
  then show ?case by auto
next
  case (Cons c cs)
  show ?case
  proof
    assume "contains p (c # cs)"
    then consider "startswith (c # cs) p" | "contains p cs" by auto
    then show "\<exists>u v. c # cs = u @ p @ v"
    proof cases
      case 1
      then obtain v where "c # cs = p @ v" by (auto simp: startswith_iff)
      then have "c # cs = [] @ p @ v" by simp
      then show ?thesis by metis
    next
      case 2
      then obtain u v where "cs = u @ p @ v" using Cons.IH by blast
      then have "c # cs = (c # u) @ p @ v" by simp
      then show ?thesis by blast
    qed
  next
    assume "\<exists>u v. c # cs = u @ p @ v"
    then obtain u v where e: "c # cs = u @ p @ v" by blast
    show "contains p (c # cs)"
    proof (cases u)
      case Nil
      with e have "startswith (c # cs) p" by (auto simp: startswith_iff)
      then show ?thesis by simp
    next
      case (Cons a u')
      with e have "cs = u' @ p @ v" by simp
      then have "contains p cs" using Cons.IH by blast
      then show ?thesis by simp
    qed
  qed
qed

lemma contains_mono: "contains p s \<Longrightarrow> contains p (a @ s @ b)"
proof -
  assume "contains p s"
  then obtain u v where "s = u @ p @ v" by (auto simp: contains_iff)
  then have "a @ s @ b = (a @ u) @ p @ (v @ b)" by simp
  then show ?thesis unfolding contains_iff by blast
qed

lemma contains_left: "contains p s \<Longrightarrow> contains p (s @ b)"
  using contains_mono [of p s "[]" b] by simp

lemma contains_right: "contains p s \<Longrightarrow> contains p (a @ s)"
  using contains_mono [of p s a "[]"] by simp

lemma lower_append: "lower (a @ b) = lower a @ lower b"
  by (simp add: lower_def)

lemma join_member: "x \<in> set items \<Longrightarrow> \<exists>u v. join sep items = u @ x @ v"
proof (induction sep items rule: join.induct)
  case (1 sep)
  then show ?case by simp
next
  case (2 sep y)
  then have "join sep [y] = [] @ x @ []" by simp
  then show ?case by blast
next
  case (3 sep y z zs)
  show ?case
  proof (cases "x = y")
    case True
    then have "join sep (y # z # zs) = [] @ x @ (sep @ join sep (z # zs))" by simp
    then show ?thesis by blast
  next
    case False
    with 3 obtain u v where "join sep (z # zs) = u @ x @ v" by auto
    then have "join sep (y # z # zs) = (y @ sep @ u) @ x @ v" by simp
    then show ?thesis by blast
  qed
qed

lemma contains_lower_join:
  assumes "x \<in> set items" and "contains p (lower x)"
  shows "contains p (lower (join sep items))"
proof -
  from join_member [OF assms(1)] obtain u v where "join sep items = u @ x @ v" by blast
  then have "lower (join sep items) = lower u @ lower x @ lower v" by (simp add: lower_append)
  then show ?thesis using contains_mono [OF assms(2)] by simp
qed

lemma lower_char_cases:
  "lower_char c = c \<or> (of_char (lower_char c) :: nat) = of_char c + 32"
proof (cases "lower_char c = c")
  case True
  then show ?thesis by simp
next
  case False
  then have r: "(65 \<le> (of_char c :: nat) \<and> (of_char c :: nat) \<le> 90)
       \<or> (192 \<le> (of_char c :: nat) \<and> (of_char c :: nat) \<le> 222 \<and> (of_char c :: nat) \<noteq> 215)"
    and l: "lower_char c = char_of ((of_char c :: nat) + 32)"
    unfolding lower_char_def Let_def by (auto split: if_splits)
  from r have "(of_char c :: nat) + 32 < 256" by linarith
  then have "((of_char c :: nat) + 32) mod 256 = of_char c + 32" by simp
  then have "(of_char (char_of ((of_char c :: nat) + 32)) :: nat) = of_char c + 32"
    by (simp only: of_char_of)
  with l show ?thesis by simp
qed

lemma char_eq_code: "(of_char c :: nat) = of_char d \<Longrightarrow> c = d"
  by (simp only: of_char_eq_iff)

lemma lower_char_letter:
  assumes "lower_char c = l" and "l = CHR ''m'' \<or> l = CHR ''a'' \<or> l = CHR ''p''"
  shows "c = CHR ''m'' \<or> c = CHR ''a'' \<or> c = CHR ''p''
         \<or> c = CHR ''M'' \<or> c = CHR ''A'' \<or> c = CHR ''P''"
proof -
  from lower_char_cases [of c] show ?thesis
  proof
    assume "lower_char c = c"
    with assms(1) have "c = l" by simp
    with assms(2) show ?thesis by metis
  next
    assume up: "(of_char (lower_char c) :: nat) = of_char c + 32"
    from assms(2) consider "l = CHR ''m''" | "l = CHR ''a''" | "l = CHR ''p''" by blast
    then show ?thesis
    proof cases
      case 1
      have "(of_char (CHR ''m'') :: nat) = of_char c + 32" using up assms(1) 1 by simp
      then have "(of_char c :: nat) + 32 = 109" by simp
      then have "(of_char c :: nat) = of_char (CHR ''M'')" by simp
      then have "c = CHR ''M''" by (rule char_eq_code)
      then show ?thesis by metis
    next
      case 2
      have "(of_char (CHR ''a'') :: nat) = of_char c + 32" using up assms(1) 2 by simp
      then have "(of_char c :: nat) + 32 = 97" by simp
      then have "(of_char c :: nat) = of_char (CHR ''A'')" by simp
      then have "c = CHR ''A''" by (rule char_eq_code)
      then show ?thesis by metis
    next
      case 3
      have "(of_char (CHR ''p'') :: nat) = of_char c + 32" using up assms(1) 3 by simp
      then have "(of_char c :: nat) + 32 = 112" by simp
      then have "(of_char c :: nat) = of_char (CHR ''P'')" by simp
      then have "c = CHR ''P''" by (rule char_eq_code)
      then show ?thesis by metis
    qed
  qed
qed

lemma escape_plain:
  "c \<noteq> q \<Longrightarrow> c \<noteq> CHR 0x5C \<Longrightarrow> c \<noteq> CHR 0x09 \<Longrightarrow> c \<noteq> CHR 0x0A \<Longrightarrow> c \<noteq> CHR 0x0D \<Longrightarrow>
   is_printable c \<Longrightarrow> escape_char q c = [c]"
  by (simp add: escape_char_def)

lemma escape_letter_m:
  "q = CHR 0x27 \<or> q = CHR 0x22 \<Longrightarrow> escape_char q (CHR ''m'') = [CHR ''m'']"
  by (rule escape_plain) (auto simp: is_printable_def)

lemma escape_letter_a:
  "q = CHR 0x27 \<or> q = CHR 0x22 \<Longrightarrow> escape_char q (CHR ''a'') = [CHR ''a'']"
  by (rule escape_plain) (auto simp: is_printable_def)

lemma escape_letter_p:
  "q = CHR 0x27 \<or> q = CHR 0x22 \<Longrightarrow> escape_char q (CHR ''p'') = [CHR ''p'']"
  by (rule escape_plain) (auto simp: is_printable_def)

lemma escape_letter_cap_m:
  "q = CHR 0x27 \<or> q = CHR 0x22 \<Longrightarrow> escape_char q (CHR ''M'') = [CHR ''M'']"
  by (rule escape_plain) (auto simp: is_printable_def)

lemma escape_letter_cap_a:
  "q = CHR 0x27 \<or> q = CHR 0x22 \<Longrightarrow> escape_char q (CHR ''A'') = [CHR ''A'']"
  by (rule escape_plain) (auto simp: is_printable_def)

lemma escape_letter_cap_p:
  "q = CHR 0x27 \<or> q = CHR 0x22 \<Longrightarrow> escape_char q (CHR ''P'') = [CHR ''P'']"
  by (rule escape_plain) (auto simp: is_printable_def)

lemma escape_char_letter:
  assumes "c = CHR ''m'' \<or> c = CHR ''a'' \<or> c = CHR ''p''
         \<or> c = CHR ''M'' \<or> c = CHR ''A'' \<or> c = CHR ''P''"
    and q: "q = CHR 0x27 \<or> q = CHR 0x22"
  shows "escape_char q c = [c]"
  using assms(1) escape_letter_m [OF q] escape_letter_a [OF q] escape_letter_p [OF q]
    escape_letter_cap_m [OF q] escape_letter_cap_a [OF q] escape_letter_cap_p [OF q]
  by metis

lemma map_eq_three:
  "map f s = u @ [a, b, c] @ v \<Longrightarrow>
   \<exists>s1 x y z s3. s = s1 @ [x, y, z] @ s3 \<and> f x = a \<and> f y = b \<and> f z = c"
proof (induction u arbitrary: s)
  case Nil
  then obtain x s' where s: "s = x # s'" and x: "f x = a" and r: "map f s' = b # c # v"
    by (cases s) auto
  from r obtain y s'' where s': "s' = y # s''" and y: "f y = b" and r': "map f s'' = c # v"
    by (cases s') auto
  from r' obtain z s3 where s'': "s'' = z # s3" and z: "f z = c"
    by (cases s'') auto
  have "s = [] @ [x, y, z] @ s3" using s s' s'' by simp
  with x y z show ?case by blast
next
  case (Cons h t)
  then obtain h' s' where s: "s = h' # s'" and r: "map f s' = t @ [a, b, c] @ v"
    by (cases s) auto
  from Cons.IH [OF r] obtain s1 x y z s3
    where "s' = s1 @ [x, y, z] @ s3" and e: "f x = a" "f y = b" "f z = c" by blast
  with s have "s = (h' # s1) @ [x, y, z] @ s3" by simp
  with e show ?case by blast
qed

lemma concat_map_three:
  assumes "g x = [x]" "g y = [y]" "g z = [z]"
  shows "concat (map g (s1 @ [x, y, z] @ s3)) = concat (map g s1) @ [x, y, z] @ concat (map g s3)"
  using assms by simp

lemma escaped_keeps_map:
  assumes "contains ''map'' (lower s)" and q: "q = CHR 0x27 \<or> q = CHR 0x22"
  shows "contains ''map'' (lower (concat (map (escape_char q) s)))"
proof -
  from assms(1) obtain u v where "lower s = u @ ''map'' @ v"
    unfolding contains_iff by blast
  then have "map lower_char s = u @ [CHR ''m'', CHR ''a'', CHR ''p''] @ v"
    unfolding lower_def .
  from map_eq_three [OF this] obtain s1 c1 c2 c3 s3
    where s: "s = s1 @ [c1, c2, c3] @ s3"
      and l1: "lower_char c1 = CHR ''m''" and l2: "lower_char c2 = CHR ''a''"
      and l3: "lower_char c3 = CHR ''p''"
    by blast
  have e1: "escape_char q c1 = [c1]"
    by (rule escape_char_letter [OF lower_char_letter [OF l1] q]) (rule disjI1, rule refl)
  have e2: "escape_char q c2 = [c2]"
    by (rule escape_char_letter [OF lower_char_letter [OF l2] q]) (rule disjI2, rule disjI1, rule refl)
  have e3: "escape_char q c3 = [c3]"
    by (rule escape_char_letter [OF lower_char_letter [OF l3] q]) (rule disjI2, rule disjI2, rule refl)
  have "concat (map (escape_char q) s) =
          concat (map (escape_char q) s1) @ [c1, c2, c3] @ concat (map (escape_char q) s3)"
    unfolding s by (rule concat_map_three [OF e1 e2 e3])
  then have "lower (concat (map (escape_char q) s)) =
          lower (concat (map (escape_char q) s1)) @ lower [c1, c2, c3]
            @ lower (concat (map (escape_char q) s3))"
    by (simp only: lower_append)
  moreover have "lower [c1, c2, c3] = ''map''"
    unfolding lower_def list.map l1 l2 l3 ..
  ultimately have "lower (concat (map (escape_char q) s)) =
          lower (concat (map (escape_char q) s1)) @ ''map''
            @ lower (concat (map (escape_char q) s3))"
    by (simp only:)
  then show ?thesis unfolding contains_iff by blast
qed

lemma repr_str_shape:
  "\<exists>q. (q = CHR 0x27 \<or> q = CHR 0x22) \<and> repr_str s = [q] @ concat (map (escape_char q) s) @ [q]"
  unfolding repr_str_def Let_def by (cases "CHR 0x27 \<in> set s \<and> CHR 0x22 \<notin> set s") simp_all

lemma repr_str_keeps_map:
  assumes "contains ''map'' (lower s)"
  shows "contains ''map'' (lower (repr_str s))"
proof -
  from repr_str_shape [of s] obtain q where q: "q = CHR 0x27 \<or> q = CHR 0x22"
    and r: "repr_str s = [q] @ concat (map (escape_char q) s) @ [q]"
    by blast
  show ?thesis
    unfolding r lower_append
    by (rule contains_mono) (rule escaped_keeps_map [OF assms q])
qed

lemma repr_func_keeps_map:
  assumes "fn_name f = Some n" and "contains ''map'' (lower n)"
  shows "contains ''map'' (lower (repr_func f))"
proof -
  obtain rest where r: "repr_func f = ''{'' @ join '', '' (repr_key ''name'' (repr_str n) # rest) @ ''}''"
    unfolding repr_func_def using assms(1) by simp
  have "contains ''map'' (lower (repr_key ''name'' (repr_str n)))"
    unfolding repr_key_def lower_append
    by (intro contains_right repr_str_keeps_map assms(2))
  then have "contains ''map'' (lower (join '', '' (repr_key ''name'' (repr_str n) # rest)))"
    by (intro contains_lower_join [where x = "repr_key ''name'' (repr_str n)"]) simp_all
  then show ?thesis
    unfolding r lower_append by (rule contains_mono)
qed

lemma names_keep_map:
  assumes "(\<exists>f \<in> set fs. \<exists>n. fn_name f = Some n \<and> contains ''map'' (lower n))
           \<or> (\<exists>c \<in> set comps. contains ''map'' (lower c))"
  shows "contains ''map'' (lower (str_functions_components fs comps))"
proof -
  have "\<exists>x \<in> set (map repr_func fs @ map repr_str comps). contains ''map'' (lower x)"
    using assms
  proof
    assume "\<exists>f \<in> set fs. \<exists>n. fn_name f = Some n \<and> contains ''map'' (lower n)"
    then obtain f n where "f \<in> set fs" "fn_name f = Some n" "contains ''map'' (lower n)" by blast
    then have "repr_func f \<in> set (map repr_func fs @ map repr_str comps)"
      and "contains ''map'' (lower (repr_func f))"
      by (simp_all add: repr_func_keeps_map)
    then show ?thesis by blast
  next
    assume "\<exists>c \<in> set comps. contains ''map'' (lower c)"
    then obtain c where "c \<in> set comps" "contains ''map'' (lower c)" by blast
    then have "repr_str c \<in> set (map repr_func fs @ map repr_str comps)"
      and "contains ''map'' (lower (repr_str c))"
      by (simp_all add: repr_str_keeps_map)
    then show ?thesis by blast
  qed
  then obtain x where "x \<in> set (map repr_func fs @ map repr_str comps)"
    and "contains ''map'' (lower x)" by blast
  then have "contains ''map'' (lower (join '', '' (map repr_func fs @ map repr_str comps)))"
    by (rule contains_lower_join)
  then show ?thesis
    unfolding str_functions_components_def repr_list_def lower_append by (rule contains_mono)
qed

lemma endswith_iff: "endswith s m \<longleftrightarrow> (\<exists>z. s = z @ m)"
proof
  assume "endswith s m"
  then have "s = take (length s - length m) s @ m"
    unfolding endswith_def by (metis append_take_drop_id)
  then show "\<exists>z. s = z @ m" ..
next
  assume "\<exists>z. s = z @ m"
  then show "endswith s m" unfolding endswith_def by auto
qed

lemma different_tail:
  assumes "s = z @ [a, d]" and "m = y @ [b, d]" and "a \<noteq> b"
  shows "\<not> endswith s m"
proof
  assume "endswith s m"
  then obtain x where "s = x @ m" unfolding endswith_iff by blast
  with assms(1,2) have "z @ [a, d] = (x @ y) @ [b, d]" by simp
  then have "[a, d] = [b, d]" by (rule append_eq_append_conv [THEN iffD1, THEN conjunct2, rotated]) simp
  with assms(3) show False by simp
qed

lemma intro_tail:
  "component_intro c =
     (''This React functional component named '' @ [CHR 0x27] @ c @ [CHR 0x27]
        @ '' is responsible for rendering UI for the related featur'') @ [CHR ''e'', CHR ''.'']"
  by (simp add: component_intro_def)

lemma state_tail:
  "state_hook_sentence = '' It uses React Hooks for state managemen'' @ [CHR ''t'', CHR ''.'']"
  by (simp add: state_hook_sentence_def)

lemma effect_tail:
  "effect_hook_sentence = '' It uses lifecycle side effects through useEffec'' @ [CHR ''t'', CHR ''.'']"
  by (simp add: effect_hook_sentence_def)

lemma http_tail:
  "http_sentence = '' It interacts with backend APIs using HTTP request'' @ [CHR ''s'', CHR ''.'']"
  by (simp add: http_sentence_def)

lemma mapping_tail:
  "array_mapping_sentence = '' It dynamically renders UI elements using array mappin'' @ [CHR ''g'', CHR ''.'']"
  by (simp add: array_mapping_sentence_def)

lemma tail_append: "s = x @ [a, d] \<Longrightarrow> p @ s = (p @ x) @ [a, d]"
  by simp

lemma description_without_mapping:
  assumes "fa_components fa = c # rest"
    and "\<not> contains ''map'' (lower (str_functions_components (fa_functions fa) (fa_components fa)))"
  shows "\<exists>z a. component_description fa = z @ [a, CHR ''.''] \<and> a \<noteq> CHR ''g''"
proof -
  let ?state = "''useState'' \<in> set (fa_react_hooks fa)"
  let ?effect = "''useEffect'' \<in> set (fa_react_hooks fa)"
  let ?http = "\<exists>imp \<in> set [''axios'', ''fetch'']. contains imp (lower (repr_str_list (fa_imports fa)))"
  have d: "component_description fa =
             component_intro c @ (if ?state then state_hook_sentence else [])
               @ (if ?effect then effect_hook_sentence else [])
               @ (if ?http then http_sentence else [])"
    using assms unfolding component_description_def by simp
  have ne: "CHR ''s'' \<noteq> CHR ''g''" "CHR ''t'' \<noteq> CHR ''g''" "CHR ''e'' \<noteq> CHR ''g''"
    by simp_all
  show ?thesis
  proof (cases ?http)
    case True
    then have "component_description fa =
        (component_intro c @ (if ?state then state_hook_sentence else [])
           @ (if ?effect then effect_hook_sentence else [])) @ http_sentence"
      unfolding d by simp
    also have "\<dots> = ((component_intro c @ (if ?state then state_hook_sentence else [])
           @ (if ?effect then effect_hook_sentence else []))
           @ '' It interacts with backend APIs using HTTP request'') @ [CHR ''s'', CHR ''.'']"
      by (rule tail_append [OF http_tail])
    finally show ?thesis using ne(1) by blast
  next
    case nohttp: False
    show ?thesis
    proof (cases ?effect)
      case True
      then have "component_description fa =
          (component_intro c @ (if ?state then state_hook_sentence else [])) @ effect_hook_sentence"
        unfolding d using nohttp by simp
      also have "\<dots> = ((component_intro c @ (if ?state then state_hook_sentence else []))
           @ '' It uses lifecycle side effects through useEffec'') @ [CHR ''t'', CHR ''.'']"
        by (rule tail_append [OF effect_tail])
      finally show ?thesis using ne(2) by blast
    next
      case noeffect: False
      show ?thesis
      proof (cases ?state)
        case True
        then have "component_description fa = component_intro c @ state_hook_sentence"
          unfolding d using nohttp noeffect by simp
        also have "\<dots> = (component_intro c @ '' It uses React Hooks for state managemen'')
             @ [CHR ''t'', CHR ''.'']"
          by (rule tail_append [OF state_tail])
        finally show ?thesis using ne(2) by blast
      next
        case False
        then have "component_description fa = component_intro c"
          unfolding d using nohttp noeffect by simp
        also note intro_tail [of c]
        finally show ?thesis using ne(3) by blast
      qed
    qed
  qed
qed

lemma generate_description_components:
  "fa_components fa \<noteq> [] \<Longrightarrow> generate_description w fa = component_description fa"
  unfolding generate_description_def Let_def by simp

text \<open>
  Claim C7, as stated, fails. The test is made on the printed form of the function
  records, which holds their descriptions too: a component file whose function \<open>load\<close>
  is documented as \<open>Loads the map tiles\<close> gets the array-mapping sentence although
  neither \<open>load\<close> nor \<open>App\<close> contains \<open>map\<close> in any letter case.
\<close>

theorem mapping_mention_counterexample:
  "fa_components map_in_docs_file = [''App'']
   \<and> map fn_name (fa_functions map_in_docs_file) = [Some ''load'', Some ''App'']
   \<and> \<not> contains ''map'' (lower ''App'') \<and> \<not> contains ''map'' (lower ''load'')
   \<and> endswith (generate_description world_ok map_in_docs_file) array_mapping_sentence
   \<and> contains array_mapping_sentence (generate_description world_ok map_in_docs_file)"
  by code_simp

text \<open>
  Claim C7, amended. For a file with at least one component, the description ends with
  the array-mapping sentence if and only if \<open>map\<close> occurs in the lower-cased printed
  form \<open>str(functions + components)\<close> of the function records and component names.
  That form holds every function name and component name, so \<open>map\<close> in one of these
  names, in any letter case, is enough for the sentence.
\<close>

theorem mapping_mention_follows_printed_records:
  assumes "fa_components fa \<noteq> []"
  shows "(endswith (generate_description w fa) array_mapping_sentence \<longleftrightarrow>
           contains ''map'' (lower (str_functions_components (fa_functions fa) (fa_components fa))))
       \<and> ((\<exists>f \<in> set (fa_functions fa). \<exists>n. fn_name f = Some n \<and> contains ''map'' (lower n))
            \<or> (\<exists>c \<in> set (fa_components fa). contains ''map'' (lower c))
           \<longrightarrow> endswith (generate_description w fa) array_mapping_sentence)"
proof -
  let ?printed = "contains ''map'' (lower (str_functions_components (fa_functions fa) (fa_components fa)))"
  from assms obtain c rest where comps: "fa_components fa = c # rest"
    by (cases "fa_components fa") auto
  have g: "generate_description w fa = component_description fa"
    by (rule generate_description_components [OF assms])
  have yes: "endswith (component_description fa) array_mapping_sentence" if "?printed"
  proof -
    from that comps have "\<exists>z. component_description fa = z @ array_mapping_sentence"
      unfolding component_description_def by (simp del: append_assoc add: append_assoc [symmetric])
    then show ?thesis unfolding endswith_iff .
  qed
  have no: "\<not> endswith (component_description fa) array_mapping_sentence" if "\<not> ?printed"
  proof -
    from description_without_mapping [OF comps that] obtain z a
      where e: "component_description fa = z @ [a, CHR ''.'']" and n: "a \<noteq> CHR ''g''" by blast
    show ?thesis by (rule different_tail [OF e mapping_tail n])
  qed
  have iff: "endswith (generate_description w fa) array_mapping_sentence \<longleftrightarrow> ?printed"
    unfolding g using yes no by blast
  have names: "endswith (generate_description w fa) array_mapping_sentence"
    if "(\<exists>f \<in> set (fa_functions fa). \<exists>n. fn_name f = Some n \<and> contains ''map'' (lower n))
            \<or> (\<exists>c \<in> set (fa_components fa). contains ''map'' (lower c))"
    unfolding iff using that by (rule names_keep_map)
  from iff names show ?thesis by blast
qed

theorem mapping_mention_follows_printed_records_witness:
  "fa_components map_in_docs_file \<noteq> []
   \<and> contains ''map'' (lower (str_functions_components (fa_functions map_in_docs_file)
                                (fa_components map_in_docs_file)))
   \<and> endswith (generate_description world_ok map_in_docs_file) array_mapping_sentence
   \<and> fa_components map_view_file \<noteq> []
   \<and> contains ''map'' (lower ''MapView'')
   \<and> endswith (generate_description world_ok map_view_file) array_mapping_sentence"
proof -
  have c1: "fa_components map_in_docs_file \<noteq> []" by code_simp
  have p1: "contains ''map'' (lower (str_functions_components (fa_functions map_in_docs_file)
                                (fa_components map_in_docs_file)))" by code_simp
  have e1: "endswith (generate_description world_ok map_in_docs_file) array_mapping_sentence"
    using mapping_mention_follows_printed_records [OF c1, of world_ok] p1 by blast
  have c2: "fa_components map_view_file \<noteq> []" by code_simp
  have m2: "contains ''map'' (lower ''MapView'')" by code_simp
  have "''MapView'' \<in> set (fa_components map_view_file)"
    by (simp add: map_view_file_def tsx_file_def)
  with m2 have "\<exists>c \<in> set (fa_components map_view_file). contains ''map'' (lower c)" by blast
  then have e2: "endswith (generate_description world_ok map_view_file) array_mapping_sentence"
    using mapping_mention_follows_printed_records [OF c2, of world_ok] by blast
  from c1 p1 e1 c2 m2 e2 show ?thesis by blast
qed


section \<open>The Python parser: syntax errors and dotted base classes\<close>

lemma visit_path: "fa_file_path (visit r n) = fa_file_path r"
  by (cases n) (simp_all add: visit_function_def Let_def)

lemma foldl_visit_path: "fa_file_path (foldl visit r ns) = fa_file_path r"
  by (induction ns arbitrary: r) (simp_all add: visit_path)

lemma parse_python_path:
  "parse_python ast_parse content file_path = Inr r \<Longrightarrow> fa_file_path r = file_path"
  unfolding parse_python_def
  by (auto simp: foldl_visit_path visit_path empty_analysis_def split: parse_outcome.splits)

text \<open>
  Claim C4. When the text of a Python file does not parse (\<open>ast.parse\<close> raises
  \<open>SyntaxError\<close>), \<open>parse_python\<close> returns a value and raises nothing: the result is
  the FileAnalysis record of that file, with its path and language, whose classes,
  functions, components, imports and routes are all empty. The dispatcher hands the
  same record on for a path ending in \<open>.py\<close>.
\<close>

theorem syntax_error_gives_empty_analysis:
  assumes "x_ast_parse x content file_path = SyntaxError"
  shows "parse_python (x_ast_parse x) content file_path = Inr (empty_analysis file_path ''Python'')
       \<and> fa_file_path (empty_analysis file_path ''Python'') = file_path
       \<and> fa_classes (empty_analysis file_path ''Python'') = []
       \<and> fa_functions (empty_analysis file_path ''Python'') = []
       \<and> fa_components (empty_analysis file_path ''Python'') = []
       \<and> fa_imports (empty_analysis file_path ''Python'') = []
       \<and> fa_routes (empty_analysis file_path ''Python'') = []
       \<and> (endswith file_path ''.py'' \<longrightarrow>
            parse_source_file x file_path (Some content)
              = Inr (Some (empty_analysis file_path ''Python'')))"
  using assms by (simp add: parse_python_def parse_source_file_def empty_analysis_def)

theorem syntax_error_gives_empty_analysis_witness:
  "x_ast_parse sample_extractors ''def ('' ''bad.py'' = SyntaxError
   \<and> endswith ''bad.py'' ''.py''
   \<and> parse_source_file sample_extractors ''bad.py'' (Some ''def ('')
       = Inr (Some \<lparr>fa_file_path = ''bad.py'', fa_language = ''Python'', fa_classes = [],
                    fa_functions = [], fa_components = [], fa_imports = [], fa_routes = [],
                    fa_react_hooks = []\<rparr>)"
proof -
  have h: "x_ast_parse sample_extractors ''def ('' ''bad.py'' = SyntaxError"
    by (simp add: sample_extractors_def parser_of_def)
  have e: "endswith ''bad.py'' ''.py''" by (simp add: endswith_def)
  from syntax_error_gives_empty_analysis [OF h] e h show ?thesis
    by (simp add: empty_analysis_def)
qed

text \<open>
  Claim C5 fails on the source \<open>class C(module.Base): pass\<close>. The class record holds,
  as its one base, the text that \<open>ast.dump\<close> prints for the attribute expression,
  \<open>Attribute(value=Name(id='module', ctx=Load()), attr='Base', ctx=Load())\<close>, and not
  \<open>module.Base\<close>. The helper \<open>_get_decorator_string\<close>, which the same parser applies to
  the decorators of functions, does give \<open>module.Base\<close> on that expression.
\<close>

theorem dotted_base_recorded_as_dump:
  "parse_python (parser_of dotted_base_tree) ''class C(module.Base): pass'' ''m.py''
     = Inr ((empty_analysis ''m.py'' ''Python'')
              \<lparr>fa_classes := [\<lparr>cl_name = ''C'', cl_bases = Some [dotted_base_dump],
                                cl_decorators = Some [], cl_line = Some 1, cl_extends = None\<rparr>]\<rparr>)
   \<and> dotted_base_dump \<noteq> ''module.Base''
   \<and> get_decorator_string (Attribute (Name ''module'') ''Base'') = ''module.Base''"
  by code_simp


section \<open>The extraction loop passes over files it cannot analyse\<close>

lemma parse_source_file_some:
  assumes "parse_source_file x p c = Inr (Some r)"
  shows "fa_file_path r = p \<and> has_parser p"
proof -
  from assms obtain t where c: "c = Some t"
    by (cases c) (simp_all add: parse_source_file_def)
  show ?thesis
  proof (cases "endswith p ''.py''")
    case True
    with assms c have "parse_python (x_ast_parse x) t p = Inr r"
      by (simp add: parse_source_file_def split: sum.splits)
    then have "fa_file_path r = p" by (rule parse_python_path)
    with True show ?thesis by (auto simp: has_parser_def source_extensions_def)
  next
    case False
    with assms c show ?thesis
      by (auto simp: parse_source_file_def parse_react_def parse_javascript_def parse_generic_def
            has_parser_def source_extensions_def Let_def split: if_splits)
  qed
qed

lemma parse_source_file_none:
  assumes "parse_source_file x p (Some t) = Inr None"
  shows "\<not> has_parser p"
  using assms
  by (auto simp: parse_source_file_def has_parser_def source_extensions_def
        split: if_splits sum.splits)

lemma analyze_loop_skip:
  "\<not> analysed f \<Longrightarrow> analyze_loop x (f # files) acc = analyze_loop x files acc"
  unfolding analysed_def by auto

lemma analyze_loop_take:
  "analysed f \<Longrightarrow>
   analyze_loop x (f # files) acc =
     (case parse_source_file x (sf_path f) (sf_content f) of
        Inl e \<Rightarrow> Inl e
      | Inr None \<Rightarrow> analyze_loop x files acc
      | Inr (Some parsed) \<Rightarrow> analyze_loop x files (acc @ [parsed]))"
  unfolding analysed_def by auto

lemma analyze_loop_paths:
  "analyze_loop x files acc = Inr rs \<Longrightarrow>
   map fa_file_path rs =
     map fa_file_path acc @ map sf_path (filter (\<lambda>f. analysed f \<and> has_parser (sf_path f)) files)"
proof (induction files arbitrary: acc)
  case Nil
  then show ?case by auto
next
  case (Cons f files)
  show ?case
  proof (cases "analysed f")
    case False
    from Cons.prems have "analyze_loop x files acc = Inr rs"
      unfolding analyze_loop_skip [OF False] .
    from Cons.IH [OF this] False show ?thesis by simp
  next
    case True
    then obtain t where t: "sf_content f = Some t"
      by (auto simp: analysed_def has_content_def split: option.splits)
    from True Cons.prems obtain parsed
      where p: "parse_source_file x (sf_path f) (sf_content f) = Inr parsed"
      unfolding analyze_loop_take [OF True]
      by (cases "parse_source_file x (sf_path f) (sf_content f)") simp_all
    show ?thesis
    proof (cases parsed)
      case None
      with Cons.prems p have "analyze_loop x files acc = Inr rs"
        unfolding analyze_loop_take [OF True] by simp
      moreover from None p t have "\<not> has_parser (sf_path f)"
        by (auto dest: parse_source_file_none)
      ultimately show ?thesis using Cons.IH by simp
    next
      case (Some r)
      with Cons.prems p have "analyze_loop x files (acc @ [r]) = Inr rs"
        unfolding analyze_loop_take [OF True] by simp
      moreover from Some p have "fa_file_path r = sf_path f \<and> has_parser (sf_path f)"
        by (auto dest: parse_source_file_some)
      ultimately show ?thesis using Cons.IH True by simp
    qed
  qed
qed

lemma analyze_loop_filter:
  "analyze_loop x files acc = analyze_loop x (filter analysed files) acc"
proof (induction files arbitrary: acc)
  case Nil
  then show ?case by simp
next
  case (Cons f files)
  show ?case
  proof (cases "analysed f")
    case True
    then have e: "filter analysed (f # files) = f # filter analysed files" by simp
    have "analyze_loop x (f # files) acc =
       (case parse_source_file x (sf_path f) (sf_content f) of
          Inl e \<Rightarrow> Inl e
        | Inr None \<Rightarrow> analyze_loop x files acc
        | Inr (Some parsed) \<Rightarrow> analyze_loop x files (acc @ [parsed]))"
      by (rule analyze_loop_take [OF True])
    also have "\<dots> =
       (case parse_source_file x (sf_path f) (sf_content f) of
          Inl e \<Rightarrow> Inl e
        | Inr None \<Rightarrow> analyze_loop x (filter analysed files) acc
        | Inr (Some parsed) \<Rightarrow> analyze_loop x (filter analysed files) (acc @ [parsed]))"
      by (simp only: Cons.IH [symmetric])
    also have "\<dots> = analyze_loop x (f # filter analysed files) acc"
      by (rule analyze_loop_take [OF True, symmetric])
    finally show ?thesis unfolding e .
  next
    case False
    then have e: "filter analysed (f # files) = filter analysed files" by simp
    show ?thesis
      unfolding e analyze_loop_skip [OF False] by (rule Cons.IH)
  qed
qed

text \<open>
  Claim C8. The extraction loop gives the result it gives for the records alone whose
  extension is recognised and whose content is present and not empty: the other records
  are passed over. When the loop returns, its FileAnalysis records are, in order, one for
  each such record the dispatcher has a strategy for, each under that record's path;
  there is no record for any other input, and no placeholder. Taking out of the input a
  record whose extension is not recognised, or whose content is absent or empty, changes
  neither the analyses nor the graphs built from them.
\<close>

theorem skipped_files_leave_no_analysis:
  "analyze_all_sources x files = analyze_all_sources x (filter analysed files)
   \<and> (analyze_all_sources x files = Inr rs \<longrightarrow>
        map fa_file_path rs
          = map sf_path (filter (\<lambda>f. analysed f \<and> has_parser (sf_path f)) files))
   \<and> (file_extension (sf_path f) \<notin> set source_extensions
        \<or> sf_content f = None \<or> sf_content f = Some [] \<longrightarrow>
        analyze_all_sources x (pre @ f # post) = analyze_all_sources x (pre @ post)
        \<and> map_sum id (build_all_graphs w) (analyze_all_sources x (pre @ f # post))
          = map_sum id (build_all_graphs w) (analyze_all_sources x (pre @ post)))"
proof (intro conjI impI)
  show "analyze_all_sources x files = analyze_all_sources x (filter analysed files)"
    unfolding analyze_all_sources_def by (rule analyze_loop_filter)
next
  assume "analyze_all_sources x files = Inr rs"
  then show "map fa_file_path rs
          = map sf_path (filter (\<lambda>f. analysed f \<and> has_parser (sf_path f)) files)"
    unfolding analyze_all_sources_def by (auto dest: analyze_loop_paths)
next
  assume "file_extension (sf_path f) \<notin> set source_extensions
        \<or> sf_content f = None \<or> sf_content f = Some []"
  then have n: "\<not> analysed f"
    unfolding analysed_def has_content_def by auto
  have "analyze_loop x (pre @ f # post) [] = analyze_loop x (filter analysed (pre @ f # post)) []"
    by (rule analyze_loop_filter)
  also have "filter analysed (pre @ f # post) = filter analysed (pre @ post)"
    using n by simp
  also have "analyze_loop x (filter analysed (pre @ post)) [] = analyze_loop x (pre @ post) []"
    by (rule analyze_loop_filter [symmetric])
  finally show e: "analyze_all_sources x (pre @ f # post) = analyze_all_sources x (pre @ post)"
    unfolding analyze_all_sources_def .
  show "map_sum id (build_all_graphs w) (analyze_all_sources x (pre @ f # post))
          = map_sum id (build_all_graphs w) (analyze_all_sources x (pre @ post))"
    unfolding e ..
qed

theorem skipped_files_leave_no_analysis_witness:
  "map analysed sample_files = [True, False, False, False, True, True]
   \<and> map (\<lambda>f. has_parser (sf_path f)) sample_files = [True, False, True, True, False, True]
   \<and> (\<exists>rs. analyze_all_sources sample_extractors sample_files = Inr rs
            \<and> map fa_file_path rs = [''src/a.py'', ''web/App.tsx''])
   \<and> analyze_all_sources sample_extractors sample_files
       = analyze_all_sources sample_extractors
           [sample_files ! 0, sample_files ! 2, sample_files ! 3, sample_files ! 4, sample_files ! 5]
   \<and> analyze_all_sources sample_extractors sample_files
       = analyze_all_sources sample_extractors
           [sample_files ! 0, sample_files ! 4, sample_files ! 5]"
proof -
  have a: "map analysed sample_files = [True, False, False, False, True, True]"
    by code_simp
  have h: "map (\<lambda>f. has_parser (sf_path f)) sample_files = [True, False, True, True, False, True]"
    by code_simp
  have s: "sample_files = [sample_files ! 0, sample_files ! 1, sample_files ! 2,
                           sample_files ! 3, sample_files ! 4, sample_files ! 5]"
    by (simp add: sample_files_def)
  have a0: "analysed (sample_files ! 0)" by code_simp
  have a1: "\<not> analysed (sample_files ! 1)" by code_simp
  have a2: "\<not> analysed (sample_files ! 2)" by code_simp
  have a3: "\<not> analysed (sample_files ! 3)" by code_simp
  have a4: "analysed (sample_files ! 4)" by code_simp
  have a5: "analysed (sample_files ! 5)" by code_simp
  have "case parse_source_file sample_extractors (sf_path (sample_files ! 0))
               (sf_content (sample_files ! 0)) of
          Inl e \<Rightarrow> False | Inr None \<Rightarrow> False | Inr (Some r) \<Rightarrow> True"
    by code_simp
  then obtain r0 where p0: "parse_source_file sample_extractors (sf_path (sample_files ! 0))
               (sf_content (sample_files ! 0)) = Inr (Some r0)"
    by (auto split: sum.splits option.splits)
  have p4: "parse_source_file sample_extractors (sf_path (sample_files ! 4))
               (sf_content (sample_files ! 4)) = Inr None"
    by code_simp
  have "case parse_source_file sample_extractors (sf_path (sample_files ! 5))
               (sf_content (sample_files ! 5)) of
          Inl e \<Rightarrow> False | Inr None \<Rightarrow> False | Inr (Some r) \<Rightarrow> True"
    by code_simp
  then obtain r5 where p5: "parse_source_file sample_extractors (sf_path (sample_files ! 5))
               (sf_content (sample_files ! 5)) = Inr (Some r5)"
    by (auto split: sum.splits option.splits)
  have "analyze_loop sample_extractors
          [sample_files ! 0, sample_files ! 1, sample_files ! 2,
           sample_files ! 3, sample_files ! 4, sample_files ! 5] [] = Inr [r0, r5]"
    by (simp only: analyze_loop_take [OF a0] analyze_loop_skip [OF a1] analyze_loop_skip [OF a2]
          analyze_loop_skip [OF a3] analyze_loop_take [OF a4] analyze_loop_take [OF a5]
          p0 p4 p5 sum.case option.case analyze_loop.simps(1) append.simps)
  then have r: "analyze_all_sources sample_extractors sample_files = Inr [r0, r5]"
    unfolding analyze_all_sources_def by (subst s)
  have f: "filter (\<lambda>f. analysed f \<and> has_parser (sf_path f)) sample_files
             = [sample_files ! 0, sample_files ! 5]"
    by code_simp
  have "file_extension (sf_path (sample_files ! 1)) \<notin> set source_extensions" by code_simp
  then have n: "file_extension (sf_path (sample_files ! 1)) \<notin> set source_extensions
        \<or> sf_content (sample_files ! 1) = None \<or> sf_content (sample_files ! 1) = Some []"
    by (rule disjI1)
  have fa: "filter analysed sample_files = [sample_files ! 0, sample_files ! 4, sample_files ! 5]"
    by code_simp
  have s': "sample_files = [sample_files ! 0] @ (sample_files ! 1) #
             [sample_files ! 2, sample_files ! 3, sample_files ! 4, sample_files ! 5]"
    by (simp add: sample_files_def)
  have s0: "sf_path (sample_files ! 0) = ''src/a.py''" by code_simp
  have s5: "sf_path (sample_files ! 5) = ''web/App.tsx''" by code_simp
  from skipped_files_leave_no_analysis
         [of sample_extractors sample_files "[r0, r5]" "sample_files ! 1" "[sample_files ! 0]"
             "[sample_files ! 2, sample_files ! 3, sample_files ! 4, sample_files ! 5]"] r n
  have p: "map fa_file_path [r0, r5]
          = map sf_path (filter (\<lambda>f. analysed f \<and> has_parser (sf_path f)) sample_files)"
    and k: "analyze_all_sources sample_extractors sample_files
            = analyze_all_sources sample_extractors (filter analysed sample_files)"
    and e: "analyze_all_sources sample_extractors
              ([sample_files ! 0] @ (sample_files ! 1) #
                 [sample_files ! 2, sample_files ! 3, sample_files ! 4, sample_files ! 5])
            = analyze_all_sources sample_extractors
              ([sample_files ! 0] @
                 [sample_files ! 2, sample_files ! 3, sample_files ! 4, sample_files ! 5])"
    by blast+
  from p have p': "map fa_file_path [r0, r5] = [''src/a.py'', ''web/App.tsx'']"
    unfolding f by (simp only: list.map s0 s5)
  have e': "analyze_all_sources sample_extractors sample_files
       = analyze_all_sources sample_extractors
           [sample_files ! 0, sample_files ! 2, sample_files ! 3, sample_files ! 4, sample_files ! 5]"
    using e by (subst s') (simp only: append.simps)
  have ex: "\<exists>rs. analyze_all_sources sample_extractors sample_files = Inr rs
            \<and> map fa_file_path rs = [''src/a.py'', ''web/App.tsx'']"
    by (rule exI [of _ "[r0, r5]"]) (rule conjI [OF r p'])
  note k' = k [unfolded fa]
  show ?thesis by (rule conjI [OF a conjI [OF h conjI [OF ex conjI [OF e' k']]]])
qed

end
